theory Spec2Isabelle
  imports Main "HOL-Library.Log_Nat"
begin

section \<open>Numbers\<close>

text \<open>
  Every number of \<^verbatim>\<open>scripts/app.js\<close> is a JavaScript Number, an IEEE 754 binary64
  value. A finite binary64 value is a rational, and each arithmetic operator returns the
  exact result of the operation rounded to the nearest representable value, ties to the
  even significand. The model keeps the exact rational value of every number and applies
  a rounding function after each operation. The program runs with \<open>round64\<close>; \<open>exact\<close>
  (no rounding) is the arithmetic of the reals. The functions of the program take the
  rounding function as their first argument, so that a property proved for every rounding
  function holds for the program and for its idealisation alike.

  Infinities, NaN and results beyond the largest finite binary64 value are outside the
  model: positions are pointer and viewport coordinates.
\<close>

type_synonym number = rat

type_synonym rounding = "rat \<Rightarrow> rat"

definition exact :: rounding where
  "exact q = q"

definition pow2 :: "int \<Rightarrow> rat" where
  "pow2 e = (if 0 \<le> e then 2 ^ nat e else 1 / 2 ^ nat (- e))"

text \<open>The binary exponent of a positive rational: \<open>pow2 (ilog2 q) \<le> q < pow2 (ilog2 q + 1)\<close>.\<close>

definition ilog2 :: "rat \<Rightarrow> int" where
  "ilog2 q = (if 1 \<le> q then bitlen \<lfloor>q\<rfloor> - 1 else - bitlen (\<lceil>1 / q\<rceil> - 1))"

definition ties_even :: "rat \<Rightarrow> int \<Rightarrow> int" where
  "ties_even q f =
     (if q - of_int f < 1 / 2 then f
      else if 1 / 2 < q - of_int f then f + 1
      else if even f then f else f + 1)"

definition round_half_even :: "rat \<Rightarrow> int" where
  "round_half_even q = ties_even q \<lfloor>q\<rfloor>"

text \<open>The multiple of the unit \<open>u\<close> nearest to \<open>a\<close>.\<close>

definition quantize :: "rat \<Rightarrow> rat \<Rightarrow> rat" where
  "quantize u a = of_int (round_half_even (a / u)) * u"

text \<open>
  Rounding to binary64: 53 significant bits, so the unit in the last place of a value with
  binary exponent \<open>e\<close> is \<open>pow2 (e - 52)\<close>; below the smallest normal exponent \<open>- 1022\<close> the
  unit stays \<open>pow2 (- 1074)\<close> (subnormal values).
\<close>

definition round64 :: rounding where
  "round64 q =
     (if q = 0 then 0
      else sgn q * quantize (pow2 (max (ilog2 \<bar>q\<bar>) (- 1022) - 52)) \<bar>q\<bar>)"

definition js_add :: "rounding \<Rightarrow> number \<Rightarrow> number \<Rightarrow> number" where
  "js_add rnd a b = rnd (a + b)"

definition js_sub :: "rounding \<Rightarrow> number \<Rightarrow> number \<Rightarrow> number" where
  "js_sub rnd a b = rnd (a - b)"

definition js_mul :: "rounding \<Rightarrow> number \<Rightarrow> number \<Rightarrow> number" where
  "js_mul rnd a b = rnd (a * b)"

definition js_div :: "rounding \<Rightarrow> number \<Rightarrow> number \<Rightarrow> number" where
  "js_div rnd a b = rnd (a / b)"

section \<open>Errors\<close>

text \<open>
  The program has no \<^verbatim>\<open>throw\<close> of its own. The only exception its code can raise is the
  TypeError of reading or writing a property of \<^verbatim>\<open>undefined\<close>, which is what indexing an
  array beyond its length returns. An exception abandons the call; the state it leaves
  behind is not modelled.
\<close>

datatype error = TypeError

definition bindE :: "error + 'a \<Rightarrow> ('a \<Rightarrow> error + 'b) \<Rightarrow> error + 'b" where
  "bindE m f = (case m of Inl e \<Rightarrow> Inl e | Inr v \<Rightarrow> f v)"

text \<open>\<^verbatim>\<open>xs[i]\<close> followed by a property access.\<close>

definition elem :: "'a list \<Rightarrow> nat \<Rightarrow> error + 'a" where
  "elem xs i = (if i < length xs then Inr (xs ! i) else Inl TypeError)"

text \<open>A counted \<^verbatim>\<open>for\<close> loop over the given indices whose body may throw.\<close>

fun forE :: "nat list \<Rightarrow> (nat \<Rightarrow> 's \<Rightarrow> error + 's) \<Rightarrow> 's \<Rightarrow> error + 's" where
  "forE [] body s = Inr s"
| "forE (i # is) body s = bindE (body i s) (forE is body)"

section \<open>Point\<close>

text \<open>A JavaScript string is kept as the list of its code points.\<close>

type_synonym jsstring = "nat list"

record Point =
  x :: number
  y :: number
  radius :: number
  color :: string
  label :: jsstring

definition DEFAULT_COLOR :: string where
  "DEFAULT_COLOR = ''#e0e0e0''"

definition Point_new :: "number \<times> number \<Rightarrow> number \<Rightarrow> string \<Rightarrow> jsstring \<Rightarrow> Point" where
  "Point_new coord r c l = \<lparr>x = fst coord, y = snd coord, radius = r, color = c, label = l\<rparr>"

definition contains :: "rounding \<Rightarrow> 'a Point_scheme \<Rightarrow> number \<Rightarrow> number \<Rightarrow> bool" where
  "contains rnd p qx qy \<longleftrightarrow>
     js_sub rnd (x p) (radius p) \<le> qx \<and>
     qx \<le> js_add rnd (x p) (radius p) \<and>
     js_sub rnd (y p) (radius p) \<le> qy \<and>
     qy \<le> js_add rnd (y p) (radius p)"

section \<open>DraggablePoint\<close>

record DraggablePoint = Point +
  dragging :: bool

definition HOVER_COLOR :: string where
  "HOVER_COLOR = ''#66a''"

definition DRAG_COLOR :: string where
  "DRAG_COLOR = ''blue''"

definition DraggablePoint_new ::
  "number \<times> number \<Rightarrow> number \<Rightarrow> string \<Rightarrow> jsstring \<Rightarrow> DraggablePoint" where
  "DraggablePoint_new coord r c l =
     \<lparr>x = fst coord, y = snd coord, radius = r, color = c, label = l,
      DraggablePoint.dragging = False\<rparr>"

definition move :: "DraggablePoint \<Rightarrow> number \<Rightarrow> number \<Rightarrow> DraggablePoint" where
  "move p nx ny = p\<lparr>x := nx, y := ny\<rparr>"

definition hover :: "DraggablePoint \<Rightarrow> DraggablePoint" where
  "hover p = p\<lparr>color := HOVER_COLOR\<rparr>"

definition drag :: "DraggablePoint \<Rightarrow> DraggablePoint" where
  "drag p = p\<lparr>DraggablePoint.dragging := True, color := DRAG_COLOR\<rparr>"

text \<open>\<^verbatim>\<open>default()\<close>; \<^verbatim>\<open>DraggablePoint.DEFAULT_COLOR\<close> is the inherited static of Point.\<close>

definition default_state :: "DraggablePoint \<Rightarrow> DraggablePoint" where
  "default_state p = p\<lparr>DraggablePoint.dragging := False, color := DEFAULT_COLOR\<rparr>"

section \<open>BezierCurve\<close>

record BezierCurve =
  controlPoints :: "DraggablePoint list"
  interpolationPoints :: "Point list"
  t :: number
  dragging :: bool
  hovering :: bool
  interpolating :: bool
  paused :: bool

definition totalSteps :: number where
  "totalSteps = 200"

text \<open>An element of the constructor's input array: \<^verbatim>\<open>{coord: {x, y}, label}\<close>.\<close>

type_synonym coords = "(number \<times> number) \<times> jsstring"

definition sub0 :: nat where
  "sub0 = 0x2080"

definition load_points :: "coords list \<Rightarrow> DraggablePoint list" where
  "load_points cs = map (\<lambda>point. DraggablePoint_new (fst point) 12 DEFAULT_COLOR (snd point)) cs"

definition loadControlPoints :: "coords list \<Rightarrow> BezierCurve \<Rightarrow> BezierCurve" where
  "loadControlPoints cs c = c\<lparr>controlPoints := load_points cs\<rparr>"

text \<open>
  One round of a marker-creating loop of the constructor: push a marker at the position of
  control point \<open>i\<close>, labelled with the given letter and the subscript digit \<open>i\<close>.
\<close>

definition push_marker :: "nat \<Rightarrow> DraggablePoint list \<Rightarrow> nat \<Rightarrow> Point list \<Rightarrow> error + Point list" where
  "push_marker letter cps i ips =
     bindE (elem cps i) (\<lambda>p. Inr (ips @ [Point_new (x p, y p) 3 ''black'' [letter, sub0 + i]]))"

definition BezierCurve_new :: "coords list \<Rightarrow> error + BezierCurve" where
  "BezierCurve_new cs =
     bindE (forE [0, 1, 2] (push_marker 0x51 (load_points cs)) []) (\<lambda>qs.
     bindE (forE [0, 1] (push_marker 0x52 (load_points cs)) qs) (\<lambda>qrs.
     bindE (elem qrs 3) (\<lambda>r0.
       Inr \<lparr>controlPoints = load_points cs,
            interpolationPoints = qrs @ [Point_new (x r0, y r0) 3 ''black'' [0x42]],
            t = 0, dragging = False, hovering = False, interpolating = False,
            paused = False\<rparr>)))"

definition isPaused :: "BezierCurve \<Rightarrow> bool" where
  "isPaused c = paused c"

definition pause :: "BezierCurve \<Rightarrow> BezierCurve" where
  "pause c = c\<lparr>paused := True\<rparr>"

definition run :: "BezierCurve \<Rightarrow> BezierCurve" where
  "run c = c\<lparr>paused := False\<rparr>"

subsection \<open>interpolate\<close>

text \<open>\<^verbatim>\<open>this.interpolationPoints[i].x = v\<close> and the same for \<^verbatim>\<open>y\<close>.\<close>

definition set_x :: "nat \<Rightarrow> number \<Rightarrow> BezierCurve \<Rightarrow> error + BezierCurve" where
  "set_x i v c =
     (if i < length (interpolationPoints c)
      then Inr (c\<lparr>interpolationPoints :=
                  (interpolationPoints c)[i := (interpolationPoints c ! i)\<lparr>x := v\<rparr>]\<rparr>)
      else Inl TypeError)"

definition set_y :: "nat \<Rightarrow> number \<Rightarrow> BezierCurve \<Rightarrow> error + BezierCurve" where
  "set_y i v c =
     (if i < length (interpolationPoints c)
      then Inr (c\<lparr>interpolationPoints :=
                  (interpolationPoints c)[i := (interpolationPoints c ! i)\<lparr>y := v\<rparr>]\<rparr>)
      else Inl TypeError)"

text \<open>The body of the loop "update Q0 - Q2".\<close>

definition update_Q :: "rounding \<Rightarrow> nat \<Rightarrow> BezierCurve \<Rightarrow> error + BezierCurve" where
  "update_Q rnd i c =
     bindE (elem (controlPoints c) i) (\<lambda>a.
     bindE (elem (controlPoints c) (i + 1)) (\<lambda>b.
     bindE (set_x i (js_add rnd (js_mul rnd (js_sub rnd 1 (t c)) (x a)) (js_mul rnd (t c) (x b))) c)
       (\<lambda>c1.
     bindE (elem (controlPoints c1) i) (\<lambda>a1.
     bindE (elem (controlPoints c1) (i + 1)) (\<lambda>b1.
       set_y i (js_add rnd (js_mul rnd (js_sub rnd 1 (t c1)) (y a1)) (js_mul rnd (t c1) (y b1)))
         c1)))))"

text \<open>The body of the loop "update R0 - R1", which reads the markers just written.\<close>

definition update_R :: "rounding \<Rightarrow> nat \<Rightarrow> BezierCurve \<Rightarrow> error + BezierCurve" where
  "update_R rnd i c =
     bindE (elem (interpolationPoints c) (i - 3)) (\<lambda>a.
     bindE (elem (interpolationPoints c) (i - 2)) (\<lambda>b.
     bindE (set_x i (js_add rnd (js_mul rnd (js_sub rnd 1 (t c)) (x a)) (js_mul rnd (t c) (x b))) c)
       (\<lambda>c1.
     bindE (elem (interpolationPoints c1) (i - 3)) (\<lambda>a1.
     bindE (elem (interpolationPoints c1) (i - 2)) (\<lambda>b1.
       set_y i (js_add rnd (js_mul rnd (js_sub rnd 1 (t c1)) (y a1)) (js_mul rnd (t c1) (y b1)))
         c1)))))"

definition update_B :: "rounding \<Rightarrow> BezierCurve \<Rightarrow> error + BezierCurve" where
  "update_B rnd c =
     bindE (elem (interpolationPoints c) 3) (\<lambda>a.
     bindE (elem (interpolationPoints c) 4) (\<lambda>b.
     bindE (set_x 5 (js_add rnd (js_mul rnd (js_sub rnd 1 (t c)) (x a)) (js_mul rnd (t c) (x b))) c)
       (\<lambda>c1.
     bindE (elem (interpolationPoints c1) 3) (\<lambda>a1.
     bindE (elem (interpolationPoints c1) 4) (\<lambda>b1.
       set_y 5 (js_add rnd (js_mul rnd (js_sub rnd 1 (t c1)) (y a1)) (js_mul rnd (t c1) (y b1)))
         c1)))))"

text \<open>The new value of \<open>t\<close> of an unpaused call: one step, and back to 0 beyond 1.\<close>

definition next_t :: "rounding \<Rightarrow> number \<Rightarrow> number" where
  "next_t rnd v =
     (if 1 < js_add rnd v (js_div rnd 1 totalSteps) then 0
      else js_add rnd v (js_div rnd 1 totalSteps))"

definition update_t :: "rounding \<Rightarrow> BezierCurve \<Rightarrow> BezierCurve" where
  "update_t rnd c = (if \<not> paused c then c\<lparr>t := next_t rnd (t c)\<rparr> else c)"

definition interpolate :: "rounding \<Rightarrow> BezierCurve \<Rightarrow> error + BezierCurve" where
  "interpolate rnd c =
     bindE (forE [0, 1, 2] (update_Q rnd) c) (\<lambda>c1.
     bindE (forE [3, 4] (update_R rnd) c1) (\<lambda>c2.
     bindE (update_B rnd c2) (\<lambda>c3.
       Inr (update_t rnd c3))))"

subsection \<open>draw\<close>

text \<open>
  The rendering surface is outside the program; a call of \<^verbatim>\<open>draw\<close> is modelled by the
  sequence of operations it issues on the canvas context. The arc of a point is always the
  full circle.
\<close>

datatype canvas_op =
    BeginPath
  | ClosePath
  | Stroke
  | Fill
  | MoveTo number number
  | LineTo number number
  | BezierCurveTo number number number number number number
  | Arc number number number
  | StrokeStyle string
  | LineWidth number
  | FillStyle string
  | Font string
  | FillText jsstring number number
  | ClearRect
  | RequestAnimationFrame

definition Point_draw :: "rounding \<Rightarrow> 'a Point_scheme \<Rightarrow> canvas_op list" where
  "Point_draw rnd p =
     [BeginPath, Arc (x p) (y p) (radius p), FillStyle (color p), Fill, ClosePath] @
     (if label p \<noteq> []
      then [Font ''24px sans-serif'', FillStyle ''#333'',
            FillText (label p) (js_sub rnd (x p) 16)
              (js_sub rnd (y p) (js_mul rnd (radius p) (rnd (11 / 5))))]
      else [])"

definition curveColor :: string where
  "curveColor = ''blue''"

definition curveWidth :: number where
  "curveWidth = 5"

definition controlLineColor :: string where
  "controlLineColor = ''#888''"

definition controlLineWidth :: number where
  "controlLineWidth = 1"

text \<open>The part of \<^verbatim>\<open>draw\<close> under \<^verbatim>\<open>if (this.interpolating)\<close>.\<close>

definition draw_interpolation :: "rounding \<Rightarrow> BezierCurve \<Rightarrow> error + canvas_op list" where
  "draw_interpolation rnd c =
     bindE (elem (interpolationPoints c) 0) (\<lambda>q0.
     bindE (elem (interpolationPoints c) 1) (\<lambda>q1.
     bindE (elem (interpolationPoints c) 2) (\<lambda>q2.
     bindE (elem (interpolationPoints c) 3) (\<lambda>r0.
     bindE (elem (interpolationPoints c) 4) (\<lambda>r1.
       Inr ([BeginPath, StrokeStyle ''magenta'', LineWidth 2,
             MoveTo (x q0) (y q0), LineTo (x q1) (y q1), Stroke,
             LineTo (x q2) (y q2), Stroke, ClosePath,
             BeginPath, StrokeStyle ''lime'',
             MoveTo (x r0) (y r0), LineTo (x r1) (y r1), Stroke, ClosePath] @
            concat (map (Point_draw rnd) (interpolationPoints c))))))))"

definition draw :: "rounding \<Rightarrow> BezierCurve \<Rightarrow> error + canvas_op list" where
  "draw rnd c =
     bindE (elem (controlPoints c) 0) (\<lambda>p0.
     bindE (elem (controlPoints c) 1) (\<lambda>p1.
     bindE (elem (controlPoints c) 2) (\<lambda>p2.
     bindE (elem (controlPoints c) 3) (\<lambda>p3.
     bindE (if interpolating c then draw_interpolation rnd c else Inr []) (\<lambda>overlay.
       Inr ([BeginPath, StrokeStyle curveColor, LineWidth curveWidth,
             MoveTo (x p0) (y p0),
             BezierCurveTo (x p1) (y p1) (x p2) (y p2) (x p3) (y p3), Stroke,
             StrokeStyle controlLineColor, LineWidth controlLineWidth,
             MoveTo (x p0) (y p0),
             LineTo (x p1) (y p1), Stroke,
             LineTo (x p2) (y p2), Stroke,
             LineTo (x p3) (y p3), Stroke, ClosePath] @
            concat (map (Point_draw rnd) (controlPoints c)) @
            overlay))))))"

section \<open>The page: pointer handlers, buttons and the animation frame\<close>

text \<open>
  \<^verbatim>\<open>array.forEach(callback)\<close> where the callback changes the element it is given and a
  variable shared by all rounds. A \<^verbatim>\<open>return\<close> in the callback ends that round only.
\<close>

fun forEach :: "('a \<Rightarrow> 's \<Rightarrow> 'a \<times> 's) \<Rightarrow> 'a list \<Rightarrow> 's \<Rightarrow> 'a list \<times> 's" where
  "forEach f [] s = ([], s)"
| "forEach f (p # ps) s =
     (case f p s of (p', s') \<Rightarrow>
        (case forEach f ps s' of (ps', s'') \<Rightarrow> (p' # ps', s'')))"

text \<open>The callbacks of the three pointer handlers; the shared variable is \<^verbatim>\<open>curve.dragging\<close>.\<close>

definition pointerdown_point ::
  "rounding \<Rightarrow> number \<Rightarrow> number \<Rightarrow> DraggablePoint \<Rightarrow> bool \<Rightarrow> DraggablePoint \<times> bool" where
  "pointerdown_point rnd ex ey p d =
     (if contains rnd p ex ey
      then (if \<not> d then (drag p, True) else (p, d))
      else (p, d))"

definition pointermove_point ::
  "rounding \<Rightarrow> number \<Rightarrow> number \<Rightarrow> DraggablePoint \<Rightarrow> bool \<Rightarrow> DraggablePoint \<times> bool" where
  "pointermove_point rnd ex ey p d =
     (if DraggablePoint.dragging p then (move p ex ey, d)
      else if \<not> d \<and> contains rnd p ex ey then (hover p, d)
      else (default_state p, d))"

definition pointerup_point ::
  "number \<Rightarrow> number \<Rightarrow> DraggablePoint \<Rightarrow> bool \<Rightarrow> DraggablePoint \<times> bool" where
  "pointerup_point ex ey p d =
     (if DraggablePoint.dragging p then (move (default_state p) ex ey, False)
      else (p, d))"

definition handle :: "(DraggablePoint \<Rightarrow> bool \<Rightarrow> DraggablePoint \<times> bool) \<Rightarrow> BezierCurve \<Rightarrow> BezierCurve" where
  "handle f c =
     (case forEach f (controlPoints c) (BezierCurve.dragging c) of
        (ps, d) \<Rightarrow> c\<lparr>controlPoints := ps, BezierCurve.dragging := d\<rparr>)"

definition pointerdown :: "rounding \<Rightarrow> number \<Rightarrow> number \<Rightarrow> BezierCurve \<Rightarrow> BezierCurve" where
  "pointerdown rnd ex ey c = handle (pointerdown_point rnd ex ey) c"

definition pointermove :: "rounding \<Rightarrow> number \<Rightarrow> number \<Rightarrow> BezierCurve \<Rightarrow> BezierCurve" where
  "pointermove rnd ex ey c = handle (pointermove_point rnd ex ey) c"

definition pointerup :: "number \<Rightarrow> number \<Rightarrow> BezierCurve \<Rightarrow> BezierCurve" where
  "pointerup ex ey c = handle (pointerup_point ex ey) c"

definition showButton_click :: "BezierCurve \<Rightarrow> BezierCurve" where
  "showButton_click c = c\<lparr>interpolating := \<not> interpolating c\<rparr>"

definition pauseButton_click :: "BezierCurve \<Rightarrow> BezierCurve" where
  "pauseButton_click c = (if isPaused c then run c else pause c)"

text \<open>One animation frame: the operations on the canvas and the curve afterwards.\<close>

definition animate :: "rounding \<Rightarrow> BezierCurve \<Rightarrow> error + canvas_op list \<times> BezierCurve" where
  "animate rnd c =
     bindE (draw rnd c) (\<lambda>ops.
     bindE (if interpolating c then interpolate rnd c else Inr c) (\<lambda>c'.
       Inr (ClearRect # ops @ [RequestAnimationFrame], c')))"

subsection \<open>Runs of the program\<close>

datatype event =
    Interpolate
  | Pause
  | Run
  | Reload "coords list"
  | PointerDown number number
  | PointerMove number number
  | PointerUp number number
  | ShowClick
  | PauseClick
  | Frame

fun fire :: "rounding \<Rightarrow> event \<Rightarrow> BezierCurve \<Rightarrow> error + BezierCurve" where
  "fire rnd Interpolate c = interpolate rnd c"
| "fire rnd Pause c = Inr (pause c)"
| "fire rnd Run c = Inr (run c)"
| "fire rnd (Reload cs) c = Inr (loadControlPoints cs c)"
| "fire rnd (PointerDown ex ey) c = Inr (pointerdown rnd ex ey c)"
| "fire rnd (PointerMove ex ey) c = Inr (pointermove rnd ex ey c)"
| "fire rnd (PointerUp ex ey) c = Inr (pointerup ex ey c)"
| "fire rnd ShowClick c = Inr (showButton_click c)"
| "fire rnd PauseClick c = Inr (pauseButton_click c)"
| "fire rnd Frame c = bindE (animate rnd c) (\<lambda>r. Inr (snd r))"

fun run_events :: "rounding \<Rightarrow> event list \<Rightarrow> BezierCurve \<Rightarrow> error + BezierCurve" where
  "run_events rnd [] c = Inr c"
| "run_events rnd (ev # evs) c = bindE (fire rnd ev c) (run_events rnd evs)"

text \<open>Construction from the given coordinates, then the given events.\<close>

definition program :: "rounding \<Rightarrow> coords list \<Rightarrow> event list \<Rightarrow> error + BezierCurve" where
  "program rnd cs evs = bindE (BezierCurve_new cs) (run_events rnd evs)"

inductive reachable :: "rounding \<Rightarrow> BezierCurve \<Rightarrow> bool" for rnd :: rounding where
  constructed: "BezierCurve_new cs = Inr c \<Longrightarrow> reachable rnd c"
| fired: "reachable rnd c \<Longrightarrow> fire rnd ev c = Inr c' \<Longrightarrow> reachable rnd c'"

section \<open>The vocabulary of the specification\<close>

definition lerp :: "rounding \<Rightarrow> number \<Rightarrow> number \<Rightarrow> number \<Rightarrow> number" where
  "lerp rnd a b v = rnd (rnd (rnd (1 - v) * a) + rnd (v * b))"

definition lerp2 ::
  "rounding \<Rightarrow> number \<times> number \<Rightarrow> number \<times> number \<Rightarrow> number \<Rightarrow> number \<times> number" where
  "lerp2 rnd A B v = (lerp rnd (fst A) (fst B) v, lerp rnd (snd A) (snd B) v)"

definition position :: "'a Point_scheme \<Rightarrow> number \<times> number" where
  "position p = (x p, y p)"

text \<open>
  De Casteljau's construction of degree 3 on the control positions \<open>P\<close> at parameter \<open>v\<close>:
  the positions of Q0, Q1, Q2, R0, R1 and B, in the order of the markers.
\<close>

definition de_casteljau :: "rounding \<Rightarrow> number \<Rightarrow> (number \<times> number) list \<Rightarrow> (number \<times> number) list" where
  "de_casteljau rnd v P =
     (let Q = map (\<lambda>i. lerp2 rnd (P ! i) (P ! (i + 1)) v) [0, 1, 2];
          R = map (\<lambda>i. lerp2 rnd (Q ! i) (Q ! (i + 1)) v) [0, 1];
          B = lerp2 rnd (R ! 0) (R ! 1) v
      in Q @ R @ [B])"

definition markers :: "BezierCurve \<Rightarrow> (number \<times> number) list" where
  "markers c = map position (interpolationPoints c)"

definition controls :: "BezierCurve \<Rightarrow> (number \<times> number) list" where
  "controls c = map position (controlPoints c)"

text \<open>A marker list with the first markers moved to the given positions.\<close>

definition place_markers :: "(number \<times> number) list \<Rightarrow> Point list \<Rightarrow> Point list" where
  "place_markers ps ms =
     map (\<lambda>(m, p). m\<lparr>x := fst p, y := snd p\<rparr>) (zip (take (length ps) ms) ps) @
     drop (length ps) ms"

text \<open>A convex combination of the positions \<open>ps\<close>.\<close>

definition in_hull :: "number \<times> number \<Rightarrow> (number \<times> number) list \<Rightarrow> bool" where
  "in_hull p ps \<longleftrightarrow>
     (\<exists>ws. length ws = length ps \<and> (\<forall>w \<in> set ws. 0 \<le> w) \<and> sum_list ws = 1 \<and>
        fst p = sum_list (map (\<lambda>(w, q). w * fst q) (zip ws ps)) \<and>
        snd p = sum_list (map (\<lambda>(w, q). w * snd q) (zip ws ps)))"

text \<open>
  The values \<open>v\<close>, \<open>next_t rnd v\<close>, ... are \<open>n\<close> values strictly between 0 and 1 and then
  exactly 0.
\<close>

fun excursion :: "rounding \<Rightarrow> nat \<Rightarrow> number \<Rightarrow> bool" where
  "excursion rnd 0 v \<longleftrightarrow> v = 0"
| "excursion rnd (Suc n) v \<longleftrightarrow> 0 < v \<and> v < 1 \<and> excursion rnd n (next_t rnd v)"

text \<open>Every marker is a convex combination of the control positions.\<close>

definition markers_in_hull :: "BezierCurve \<Rightarrow> bool" where
  "markers_in_hull c \<longleftrightarrow> (\<forall>m \<in> set (markers c). in_hull m (controls c))"

text \<open>
  Within \<open>d\<close> of a convex combination of the positions \<open>ps\<close>, on each coordinate; the markers
  of a curve within \<open>d\<close> of the hull of its control positions.
\<close>

definition near_hull :: "number \<Rightarrow> number \<times> number \<Rightarrow> (number \<times> number) list \<Rightarrow> bool" where
  "near_hull d p ps \<longleftrightarrow>
     (\<exists>h. in_hull h ps \<and> \<bar>fst p - fst h\<bar> \<le> d \<and> \<bar>snd p - snd h\<bar> \<le> d)"

definition markers_near_hull :: "number \<Rightarrow> BezierCurve \<Rightarrow> bool" where
  "markers_near_hull d c \<longleftrightarrow> (\<forall>m \<in> set (markers c). near_hull d m (controls c))"

text \<open>
  The error of a rounding function: at most the fraction \<open>e\<close> of the absolute value of the
  argument, or the absolute amount \<open>h\<close> where that is more. For binary64 the fraction is
  half a unit in the last place of 1, and the amount half the smallest positive value.
\<close>

definition rounds_within :: "rat \<Rightarrow> rat \<Rightarrow> rounding \<Rightarrow> bool" where
  "rounds_within e h rnd \<longleftrightarrow> (\<forall>q. \<bar>rnd q - q\<bar> \<le> max (e * \<bar>q\<bar>) h)"

definition eps64 :: rat where
  "eps64 = 1 / 2 ^ 53"

definition eta64 :: rat where
  "eta64 = 1 / 2 ^ 1075"

text \<open>The control points whose \<^verbatim>\<open>dragging\<close> flag is set.\<close>

definition dragging_points :: "BezierCurve \<Rightarrow> DraggablePoint list" where
  "dragging_points c = filter DraggablePoint.dragging (controlPoints c)"

text \<open>
  The invariant of the drag protocol: at most one control point is dragging, and none is
  unless \<^verbatim>\<open>curve.dragging\<close> is set.
\<close>

definition drag_invariant :: "BezierCurve \<Rightarrow> bool" where
  "drag_invariant c \<longleftrightarrow>
     length (dragging_points c) \<le> 1 \<and> (\<not> BezierCurve.dragging c \<longrightarrow> dragging_points c = [])"

fun pointer_event :: "event \<Rightarrow> bool" where
  "pointer_event (PointerDown ex ey) = True"
| "pointer_event (PointerMove ex ey) = True"
| "pointer_event (PointerUp ex ey) = True"
| "pointer_event ev = False"

text \<open>
  A frame whose picture is the picture of the curve as the frame leaves it, that is, a
  frame that draws what it has recomputed.
\<close>

definition frame_draws_recomputed :: "rounding \<Rightarrow> BezierCurve \<Rightarrow> bool" where
  "frame_draws_recomputed rnd c \<longleftrightarrow>
     (\<exists>drawn c'. animate rnd c = Inr (ClearRect # drawn @ [RequestAnimationFrame], c') \<and>
        draw rnd c' = Inr drawn)"

text \<open>The scene of the specification's example.\<close>

definition example_coords :: "coords list" where
  "example_coords = [((0, 0), []), ((0, 100), []), ((100, 100), []), ((100, 0), [])]"

definition example_curve :: BezierCurve where
  "example_curve =
     \<lparr>controlPoints = load_points example_coords,
      interpolationPoints =
        [Point_new (0, 0) 3 ''black'' [0x51, sub0],
         Point_new (0, 100) 3 ''black'' [0x51, sub0 + 1],
         Point_new (100, 100) 3 ''black'' [0x51, sub0 + 2],
         Point_new (0, 0) 3 ''black'' [0x52, sub0],
         Point_new (0, 100) 3 ''black'' [0x52, sub0 + 1],
         Point_new (0, 0) 3 ''black'' [0x42]],
      t = 0, dragging = False, hovering = False, interpolating = False, paused = False\<rparr>"

text \<open>Four control points at the same place, and two control points whose boxes overlap.\<close>

definition stacked_coords :: "coords list" where
  "stacked_coords = [((57, 57), []), ((57, 57), []), ((57, 57), []), ((57, 57), [])]"

definition overlapping_coords :: "coords list" where
  "overlapping_coords = [((100, 100), []), ((105, 100), []), ((300, 300), []), ((400, 100), [])]"

section \<open>The rounding function\<close>

text \<open>
  \<open>round64\<close> returns a multiple of the unit in the last place of its argument that is
  within half a unit of the argument, and it leaves a value of at most 53 significant bits
  as it is.
\<close>

lemma round_half_even_nearest: "\<bar>of_int (round_half_even q) - q\<bar> \<le> 1 / 2"
proof -
  define f where "f = (of_int \<lfloor>q\<rfloor> :: rat)"
  have f: "f \<le> q" "q < f + 1"
    unfolding f_def by linarith+
  have up: "(of_int (\<lfloor>q\<rfloor> + 1) :: rat) = f + 1"
    by (simp add: f_def)
  consider "q - f < 1 / 2" | "1 / 2 < q - f" | "q - f = 1 / 2"
    by linarith
  then show ?thesis
  proof cases
    case 1
    then have "round_half_even q = \<lfloor>q\<rfloor>"
      by (simp add: round_half_even_def ties_even_def f_def)
    with 1 f show ?thesis
      by (auto simp: f_def [symmetric] abs_if)
  next
    case 2
    then have "round_half_even q = \<lfloor>q\<rfloor> + 1"
      by (simp add: round_half_even_def ties_even_def f_def)
    with 2 f show ?thesis
      by (simp only: up | auto simp: abs_if)+
  next
    case 3
    then have "round_half_even q = \<lfloor>q\<rfloor> \<or> round_half_even q = \<lfloor>q\<rfloor> + 1"
      by (simp add: round_half_even_def ties_even_def f_def)
    then show ?thesis
    proof
      assume "round_half_even q = \<lfloor>q\<rfloor>"
      with 3 show ?thesis
        by (auto simp: f_def [symmetric] abs_if)
    next
      assume "round_half_even q = \<lfloor>q\<rfloor> + 1"
      with 3 show ?thesis
        by (simp only: up | auto simp: abs_if)+
    qed
  qed
qed

lemma pow2_pos: "0 < pow2 e"
  by (simp add: pow2_def)

lemma pow2_Suc: "pow2 (e + 1) = 2 * pow2 e"
proof (cases "0 \<le> e")
  case True
  then show ?thesis by (simp add: pow2_def nat_add_distrib)
next
  case False
  then have "nat (- e) = Suc (nat (- (e + 1)))" by simp
  with False show ?thesis
    by (auto simp: pow2_def)
qed

lemma ilog2_bounds:
  assumes "0 < q"
  shows "pow2 (ilog2 q) \<le> q \<and> q < pow2 (ilog2 q + 1)"
proof (cases "1 \<le> q")
  case True
  let ?n = "\<lfloor>q\<rfloor>"
  from True have n: "0 < ?n" by simp
  from bitlen_bounds [OF n] have b: "2 ^ nat (bitlen ?n - 1) \<le> ?n" "?n < 2 ^ nat (bitlen ?n)"
    by simp_all
  from n have pos: "1 \<le> bitlen ?n"
    by (simp add: bitlen_alt_def)
  have "pow2 (bitlen ?n - 1) = of_int (2 ^ nat (bitlen ?n - 1))"
    using pos by (simp add: pow2_def)
  also have "\<dots> \<le> of_int ?n"
    using b(1) by (simp only: of_int_le_iff)
  also have "\<dots> \<le> q" by simp
  finally have lo: "pow2 (bitlen ?n - 1) \<le> q" .
  from b(2) have "?n + 1 \<le> 2 ^ nat (bitlen ?n)" by simp
  then have "of_int (?n + 1) \<le> (of_int (2 ^ nat (bitlen ?n)) :: rat)"
    by (simp only: of_int_le_iff)
  moreover have "q < of_int (?n + 1)"
    by simp linarith
  ultimately have "q < of_int (2 ^ nat (bitlen ?n))"
    by (rule less_le_trans [rotated])
  moreover have "pow2 (bitlen ?n) = of_int (2 ^ nat (bitlen ?n))"
    using pos by (simp add: pow2_def)
  ultimately have "q < pow2 (bitlen ?n)" by simp
  with lo True show ?thesis
    by (simp add: ilog2_def)
next
  case False
  with assms have r: "1 < 1 / q" by simp
  let ?m = "\<lceil>1 / q\<rceil> - 1"
  from r have m: "0 < ?m" by linarith
  let ?k = "bitlen ?m"
  from bitlen_bounds [OF m] have b: "2 ^ nat (?k - 1) \<le> ?m" "?m < 2 ^ nat ?k"
    by simp_all
  from m have pos: "1 \<le> ?k"
    by (simp add: bitlen_alt_def)
  have e: "ilog2 q = - ?k"
    using False by (simp add: ilog2_def)
  from b(2) have "?m + 1 \<le> 2 ^ nat ?k" by simp
  then have "of_int (?m + 1) \<le> (of_int (2 ^ nat ?k) :: rat)"
    by (simp only: of_int_le_iff)
  moreover have "1 / q \<le> of_int (?m + 1)"
    by simp
  ultimately have "1 / q \<le> of_int (2 ^ nat ?k)"
    by (rule order_trans [rotated])
  then have "1 / q \<le> 2 ^ nat ?k" by simp
  with assms have "1 / 2 ^ nat ?k \<le> q"
    by (simp add: field_simps)
  then have lo: "pow2 (- ?k) \<le> q"
    using pos by (simp add: pow2_def)
  have "of_int (2 ^ nat (?k - 1)) \<le> (of_int ?m :: rat)"
    using b(1) by (simp only: of_int_le_iff)
  moreover have "of_int ?m < 1 / q"
    by simp linarith
  ultimately have "of_int (2 ^ nat (?k - 1)) < 1 / q"
    by (rule le_less_trans)
  then have "2 ^ nat (?k - 1) < 1 / q" by simp
  with assms have "q < 1 / 2 ^ nat (?k - 1)"
    by (simp add: field_simps)
  moreover have "pow2 (- ?k + 1) = 1 / 2 ^ nat (?k - 1)"
    using pos by (auto simp: pow2_def)
  ultimately have "q < pow2 (- ?k + 1)" by simp
  with lo e show ?thesis by simp
qed


lemma round64_nearest:
  "\<bar>round64 q - q\<bar> \<le> pow2 (max (ilog2 \<bar>q\<bar>) (- 1022) - 52) / 2"
proof (cases "q = 0")
  case True
  then show ?thesis
    using pow2_pos [of "max (ilog2 \<bar>q\<bar>) (- 1022) - 52"] by (simp add: round64_def)
next
  case False
  define u where "u = pow2 (max (ilog2 \<bar>q\<bar>) (- 1022) - 52)"
  have u: "0 < u" by (simp add: u_def pow2_pos)
  have "\<bar>of_int (round_half_even (\<bar>q\<bar> / u)) - \<bar>q\<bar> / u\<bar> \<le> 1 / 2"
    by (rule round_half_even_nearest)
  then have "\<bar>of_int (round_half_even (\<bar>q\<bar> / u)) - \<bar>q\<bar> / u\<bar> * \<bar>u\<bar> \<le> 1 / 2 * u"
    using u mult_right_mono [of "\<bar>of_int (round_half_even (\<bar>q\<bar> / u)) - \<bar>q\<bar> / u\<bar>" "1 / 2" u]
    by simp
  moreover have "(of_int (round_half_even (\<bar>q\<bar> / u)) - \<bar>q\<bar> / u) * u =
      of_int (round_half_even (\<bar>q\<bar> / u)) * u - \<bar>q\<bar>"
    using u by (simp add: left_diff_distrib)
  ultimately have "\<bar>of_int (round_half_even (\<bar>q\<bar> / u)) * u - \<bar>q\<bar>\<bar> \<le> u / 2"
    by (simp only: abs_mult [symmetric])
  then have "\<bar>sgn q * (quantize u \<bar>q\<bar> - \<bar>q\<bar>)\<bar> \<le> u / 2"
    using False by (simp add: quantize_def abs_mult abs_sgn_eq)
  moreover have "sgn q * (quantize u \<bar>q\<bar> - \<bar>q\<bar>) = round64 q - q"
    using False by (simp add: round64_def u_def right_diff_distrib sgn_mult_abs)
  ultimately show ?thesis
    by (simp add: u_def)
qed

text \<open>A value with at most 53 significant bits is left as it is.\<close>

lemma pow2_power_int: "pow2 e = power_int 2 e"
  by (cases "0 \<le> e") (simp_all add: pow2_def power_int_def power_one_over)

lemma pow2_add: "pow2 (a + b) = pow2 a * pow2 b"
  by (simp add: pow2_power_int power_int_add)

lemma pow2_less_D: "pow2 a < pow2 b \<Longrightarrow> a < b"
  using power_int_increasing [of b a "2 :: rat"]
  by (fastforce simp: pow2_power_int)

lemma round_half_even_of_int: "round_half_even (of_int n) = n"
  by (simp add: round_half_even_def ties_even_def)

lemma round64_representable:
  assumes "0 < m" and "m < 2 ^ 53" and "- 1074 \<le> e"
  shows "round64 (of_int m * pow2 e) = of_int m * pow2 e"
proof -
  define q where "q = of_int m * pow2 e"
  have q: "0 < q"
    using assms(1) pow2_pos [of e] by (simp add: q_def)
  note b = ilog2_bounds [OF q]
  have "of_int m < (2 ^ 53 :: rat)"
    using assms(2) by (metis of_int_less_iff of_int_numeral of_int_power)
  then have "q < 2 ^ 53 * pow2 e"
    unfolding q_def using pow2_pos [of e] by (intro mult_strict_right_mono)
  also have "\<dots> = pow2 (53 + e)"
    by (simp add: pow2_add) (simp add: pow2_def)
  finally have "pow2 (ilog2 q) < pow2 (53 + e)"
    using b by simp
  then have "ilog2 q < 53 + e"
    by (rule pow2_less_D)
  define s where "s = max (ilog2 q) (- 1022) - 52"
  from \<open>ilog2 q < 53 + e\<close> assms(3) have s: "s \<le> e"
    by (simp add: s_def)
  then have "pow2 e = pow2 (e - s) * pow2 s"
    using pow2_add [of "e - s" s] by simp
  moreover have "pow2 (e - s) = of_int (2 ^ nat (e - s))"
    using s by (simp add: pow2_def)
  ultimately have n: "q / pow2 s = of_int (m * 2 ^ nat (e - s))"
    using pow2_pos [of s] by (simp add: q_def)
  have "quantize (pow2 s) q = of_int (m * 2 ^ nat (e - s)) * pow2 s"
    by (simp only: quantize_def n round_half_even_of_int)
  also have "\<dots> = q / pow2 s * pow2 s"
    by (simp only: n)
  also have "\<dots> = q"
    using pow2_pos [of s] by simp
  finally have "quantize (pow2 s) q = q" .
  with q show ?thesis
    unfolding q_def [symmetric] by (simp add: round64_def s_def)
qed

text \<open>Integers below \<open>2 ^ 53\<close> in absolute value are exact.\<close>

lemma round64_minus: "round64 (- q) = - round64 q"
  by (simp add: round64_def)

lemma round64_integer:
  assumes "\<bar>n\<bar> < 2 ^ 53"
  shows "round64 (of_int n) = of_int n"
proof -
  have pos: "round64 (of_int k) = of_int k" if "0 < k" "k < 2 ^ 53" for k
    using round64_representable [of k 0] that by (simp add: pow2_def)
  consider "n = 0" | "0 < n" | "0 < - n"
    by linarith
  then show ?thesis
  proof cases
    case 1
    then show ?thesis by (simp add: round64_def)
  next
    case 2
    with assms show ?thesis by (intro pos) simp_all
  next
    case 3
    with assms have "round64 (of_int (- n)) = of_int (- n)"
      by (intro pos) simp_all
    then show ?thesis
      using round64_minus [of "of_int n"] by simp
  qed
qed

section \<open>Evaluating binary64 arithmetic\<close>

lemma bitlen_numeral: "bitlen (numeral k) = bitlen (numeral k div 2) + 1"
  by (subst compute_bitlen) simp

lemma bitlen_one: "bitlen 1 = 1"
  by (subst compute_bitlen) simp

lemma floor_rat_numeral: "\<lfloor>numeral a / numeral b :: rat\<rfloor> = numeral a div numeral b"
  using floor_divide_of_int_eq [of "numeral a" "numeral b", where ?'a = rat] by simp

lemma ceiling_rat_numeral:
  "\<lceil>numeral a / numeral b :: rat\<rceil> = - ((- numeral a) div numeral b)"
  using ceiling_divide_eq_div [of "numeral a" "numeral b", where ?'a = rat] by simp

text \<open>
  \<open>round64\<close> is unfolded on numerals only, so that the simplifier evaluates a rounding
  once its argument is known and leaves it alone before.
\<close>

lemma round64_zero: "round64 0 = 0"
  by (simp add: round64_def)

lemmas round64_numerals =
  round64_def [of 1] round64_def [of "- 1"]
  round64_def [of "numeral a"] round64_def [of "- numeral a"]
  round64_def [of "numeral a / numeral b"] round64_def [of "- (numeral a / numeral b)"]
  round64_def [of "1 / numeral b"] round64_def [of "- (1 / numeral b)"]
  for a b

lemmas round64_eval =
  round64_zero round64_numerals
  quantize_def round_half_even_def ties_even_def ilog2_def pow2_def
  bitlen_numeral bitlen_one floor_rat_numeral ceiling_rat_numeral

text \<open>
  The model agrees with binary64 on the constants of the program: \<^verbatim>\<open>1 / 200\<close> is
  \<^verbatim>\<open>0x1.47ae147ae147bp-8\<close> and \<^verbatim>\<open>2.2\<close> is \<^verbatim>\<open>0x1.199999999999ap+1\<close>; \<^verbatim>\<open>0.1 + 0.2\<close> is
  not \<^verbatim>\<open>0.3\<close>; integers and halves of this size are exact.
\<close>

lemma step_binary64: "js_div round64 1 totalSteps = 5764607523034235 / 2 ^ 60"
  by (simp add: js_div_def totalSteps_def round64_eval)

lemma round64_examples:
  "round64 (11 / 5) = 2476979795053773 / 2 ^ 50"
  "round64 (round64 (1 / 10) + round64 (1 / 5)) = 5404319552844596 / 2 ^ 54"
  "round64 (3 / 10) = 5404319552844595 / 2 ^ 54"
  "round64 100 = 100"
  "round64 (- 25) = - 25"
  "round64 (1 / 2) = 1 / 2"
  "round64 (- (1 / 3)) = - (6004799503160661 / 2 ^ 54)"
  by (simp_all add: round64_eval)

lemma exact_ops [simp]:
  "js_add exact a b = a + b" "js_sub exact a b = a - b"
  "js_mul exact a b = a * b" "js_div exact a b = a / b"
  by (simp_all add: js_add_def js_sub_def js_mul_def js_div_def exact_def)

section \<open>Exceptions\<close>

lemma bindE_Inr [simp]: "bindE (Inr v) f = f v"
  by (simp add: bindE_def)

lemma bindE_Inl [simp]: "bindE (Inl e) f = Inl e"
  by (simp add: bindE_def)

lemma bindE_eq_Inr: "bindE m f = Inr r \<longleftrightarrow> (\<exists>v. m = Inr v \<and> f v = Inr r)"
  by (cases m) simp_all

lemma only_TypeError: "(\<forall>v. r \<noteq> Inr v) \<longleftrightarrow> r = Inl TypeError"
  by (cases r) (auto intro: error.exhaust)

lemma isl_iff_TypeError: "isl r \<longleftrightarrow> r = Inl TypeError"
  by (cases r) (auto intro: error.exhaust)

lemma elem_D: "elem xs i = Inr v \<Longrightarrow> i < length xs"
  by (auto simp: elem_def split: if_splits)

lemma at_least_three: "3 \<le> length xs \<Longrightarrow> \<exists>a b c r. xs = a # b # c # r"
  by (auto simp: Suc_le_length_iff eval_nat_numeral)

lemma at_least_four: "4 \<le> length xs \<Longrightarrow> \<exists>a b c d r. xs = a # b # c # d # r"
  by (auto simp: Suc_le_length_iff eval_nat_numeral)

lemma at_least_six: "6 \<le> length xs \<Longrightarrow> \<exists>a b c d e f r. xs = a # b # c # d # e # f # r"
  by (auto simp: Suc_le_length_iff eval_nat_numeral)

section \<open>What a call of interpolate does\<close>

lemma interpolate_lists:
  assumes "controlPoints c = p0 # p1 # p2 # p3 # ps"
    and "interpolationPoints c = m0 # m1 # m2 # m3 # m4 # m5 # ms"
  shows "interpolate rnd c =
     Inr (update_t rnd (c\<lparr>interpolationPoints :=
        place_markers (de_casteljau rnd (t c) (controls c)) (interpolationPoints c)\<rparr>))"
  using assms
  by (simp add: interpolate_def update_Q_def update_R_def update_B_def elem_def
      set_x_def set_y_def place_markers_def de_casteljau_def controls_def position_def
      lerp2_def lerp_def js_add_def js_sub_def js_mul_def eval_nat_numeral)

lemma interpolate_closed:
  assumes "4 \<le> length (controlPoints c)" and "6 \<le> length (interpolationPoints c)"
  shows "interpolate rnd c =
     Inr (update_t rnd (c\<lparr>interpolationPoints :=
        place_markers (de_casteljau rnd (t c) (controls c)) (interpolationPoints c)\<rparr>))"
proof -
  from assms(1) obtain p0 p1 p2 p3 ps where "controlPoints c = p0 # p1 # p2 # p3 # ps"
    using at_least_four by blast
  moreover from assms(2) obtain m0 m1 m2 m3 m4 m5 ms
    where "interpolationPoints c = m0 # m1 # m2 # m3 # m4 # m5 # ms"
    using at_least_six by blast
  ultimately show ?thesis by (rule interpolate_lists)
qed

lemma set_x_D:
  "set_x i v c = Inr c' \<Longrightarrow>
     i < length (interpolationPoints c) \<and> controlPoints c' = controlPoints c \<and>
     length (interpolationPoints c') = length (interpolationPoints c)"
  by (auto simp: set_x_def split: if_splits)

lemma set_y_D:
  "set_y i v c = Inr c' \<Longrightarrow>
     i < length (interpolationPoints c) \<and> controlPoints c' = controlPoints c \<and>
     length (interpolationPoints c') = length (interpolationPoints c)"
  by (auto simp: set_y_def split: if_splits)

lemma update_Q_D:
  "update_Q rnd i c = Inr c' \<Longrightarrow>
     Suc i < length (controlPoints c) \<and> i < length (interpolationPoints c) \<and>
     controlPoints c' = controlPoints c \<and>
     length (interpolationPoints c') = length (interpolationPoints c)"
  unfolding update_Q_def bindE_eq_Inr
  by (auto dest!: set_x_D set_y_D elem_D)

lemma update_R_D:
  "update_R rnd i c = Inr c' \<Longrightarrow>
     i < length (interpolationPoints c) \<and>
     controlPoints c' = controlPoints c \<and>
     length (interpolationPoints c') = length (interpolationPoints c)"
  unfolding update_R_def bindE_eq_Inr
  by (auto dest!: set_x_D set_y_D elem_D)

lemma update_B_D:
  "update_B rnd c = Inr c' \<Longrightarrow>
     5 < length (interpolationPoints c) \<and>
     controlPoints c' = controlPoints c \<and>
     length (interpolationPoints c') = length (interpolationPoints c)"
  unfolding update_B_def bindE_eq_Inr
  by (auto dest!: set_x_D set_y_D elem_D)

lemma interpolate_D:
  assumes "interpolate rnd c = Inr c'"
  shows "4 \<le> length (controlPoints c) \<and> 6 \<le> length (interpolationPoints c)"
proof -
  from assms obtain c1 c2 c3 ca cb where
    q: "update_Q rnd 0 c = Inr ca" "update_Q rnd 1 ca = Inr cb" "update_Q rnd 2 cb = Inr c1"
    and r: "forE [3, 4] (update_R rnd) c1 = Inr c2"
    and b: "update_B rnd c2 = Inr c3"
    unfolding interpolate_def by (auto simp: bindE_eq_Inr)
  from r obtain cd where r': "update_R rnd 3 c1 = Inr cd" "update_R rnd 4 cd = Inr c2"
    by (auto simp: bindE_eq_Inr)
  from q have "4 \<le> length (controlPoints c)"
    by (auto dest!: update_Q_D)
  moreover from q r' b have "6 \<le> length (interpolationPoints c)"
    by (auto dest!: update_Q_D update_R_D update_B_D)
  ultimately show ?thesis ..
qed

lemma interpolate_succeeds_iff:
  "(\<exists>c'. interpolate rnd c = Inr c') \<longleftrightarrow>
     4 \<le> length (controlPoints c) \<and> 6 \<le> length (interpolationPoints c)"
  using interpolate_D interpolate_closed by blast

lemma place_markers_length:
  "length ps \<le> length ms \<Longrightarrow> length (place_markers ps ms) = length ms"
  by (simp add: place_markers_def)

lemma place_markers_nth:
  assumes "length ps \<le> length ms" and "i < length ms"
  shows "place_markers ps ms ! i =
     (if i < length ps then (ms ! i)\<lparr>x := fst (ps ! i), y := snd (ps ! i)\<rparr> else ms ! i)"
  using assms by (auto simp: place_markers_def nth_append)

lemma de_casteljau_length [simp]: "length (de_casteljau rnd v P) = 6"
  by (simp add: de_casteljau_def Let_def)

lemma place_markers_positions:
  "length ms = length ps \<Longrightarrow> map position (place_markers ps ms) = ps"
  by (auto simp: place_markers_def position_def intro!: nth_equalityI)

lemma interpolate_result:
  assumes "4 \<le> length (controlPoints c)" and "length (interpolationPoints c) = 6"
  shows "\<exists>c'. interpolate rnd c = Inr c' \<and> markers c' = de_casteljau rnd (t c) (controls c) \<and>
     controlPoints c' = controlPoints c \<and>
     t c' = (if paused c then t c else next_t rnd (t c)) \<and> paused c' = paused c"
  using assms
  by (simp add: interpolate_closed update_t_def markers_def place_markers_positions)

lemma de_casteljau_example:
  "rnd = round64 \<or> rnd = exact \<Longrightarrow>
     de_casteljau rnd (1 / 2) [(0, 0), (0, 100), (100, 100), (100, 0)] =
       [(0, 50), (50, 100), (100, 50), (25, 75), (75, 75), (50, 75)]"
  by (auto simp: de_casteljau_def lerp2_def lerp_def exact_def round64_eval)

lemma example_curve_controls [simp]:
  "controls example_curve = [(0, 0), (0, 100), (100, 100), (100, 0)]"
  by (simp add: example_curve_def controls_def load_points_def example_coords_def
      DraggablePoint_new_def position_def)

lemma example_curve_lengths [simp]:
  "length (controlPoints example_curve) = 4" "length (interpolationPoints example_curve) = 6"
  by (simp_all add: example_curve_def load_points_def example_coords_def)

section \<open>The markers after a call, and the hit test\<close>

text \<open>
  C1. A call of \<^verbatim>\<open>interpolate()\<close> on a curve with 4 control points returns, and it sets
  the six markers by De Casteljau's construction at the value of \<open>t\<close> the call finds:
  \<open>Q[i] = lerp(P[i], P[i+1], t)\<close>, \<open>R[i] = lerp(Q[i], Q[i+1], t)\<close> and
  \<open>B = lerp(R[0], R[1], t)\<close>, where \<open>lerp(A, B, t) = (1 - t) * A + t * B\<close> on each
  coordinate, in the arithmetic of the program. For the control points (0,0), (0,100),
  (100,100), (100,0) at \<open>t = 1/2\<close> the markers are (0,50), (50,100), (100,50), (25,75),
  (75,75), (50,75), in binary64 as in exact arithmetic.
\<close>

theorem interpolate_de_casteljau:
  assumes "length (controlPoints c) = 4" and "length (interpolationPoints c) = 6"
  shows "\<exists>c'. interpolate rnd c = Inr c' \<and>
     markers c' = de_casteljau rnd (t c) (controls c) \<and>
     markers c' ! 0 = lerp2 rnd (controls c ! 0) (controls c ! 1) (t c) \<and>
     markers c' ! 1 = lerp2 rnd (controls c ! 1) (controls c ! 2) (t c) \<and>
     markers c' ! 2 = lerp2 rnd (controls c ! 2) (controls c ! 3) (t c) \<and>
     markers c' ! 3 = lerp2 rnd (markers c' ! 0) (markers c' ! 1) (t c) \<and>
     markers c' ! 4 = lerp2 rnd (markers c' ! 1) (markers c' ! 2) (t c) \<and>
     markers c' ! 5 = lerp2 rnd (markers c' ! 3) (markers c' ! 4) (t c) \<and>
     (lerp rnd a b v = js_add rnd (js_mul rnd (js_sub rnd 1 v) a) (js_mul rnd v b)) \<and>
     ((rnd = round64 \<or> rnd = exact) \<and> t c = 1 / 2 \<and>
      controls c = [(0, 0), (0, 100), (100, 100), (100, 0)] \<longrightarrow>
        markers c' = [(0, 50), (50, 100), (100, 50), (25, 75), (75, 75), (50, 75)])"
proof -
  let ?dc = "de_casteljau rnd (t c) (controls c)"
  from assms obtain c' where c': "interpolate rnd c = Inr c'" "markers c' = ?dc"
    using interpolate_result [of c rnd] by auto
  have q: "?dc ! 0 = lerp2 rnd (controls c ! 0) (controls c ! 1) (t c)"
    "?dc ! 1 = lerp2 rnd (controls c ! 1) (controls c ! 2) (t c)"
    "?dc ! 2 = lerp2 rnd (controls c ! 2) (controls c ! 3) (t c)"
    by (simp_all add: de_casteljau_def eval_nat_numeral)
  have r: "?dc ! 3 = lerp2 rnd (?dc ! 0) (?dc ! 1) (t c)"
    "?dc ! 4 = lerp2 rnd (?dc ! 1) (?dc ! 2) (t c)"
    by (simp_all add: de_casteljau_def eval_nat_numeral)
  have b: "?dc ! 5 = lerp2 rnd (?dc ! 3) (?dc ! 4) (t c)"
    by (simp add: de_casteljau_def eval_nat_numeral)
  have l: "lerp rnd a b v = js_add rnd (js_mul rnd (js_sub rnd 1 v) a) (js_mul rnd v b)"
    by (simp add: lerp_def js_add_def js_mul_def js_sub_def)
  have e: "?dc = [(0, 50), (50, 100), (100, 50), (25, 75), (75, 75), (50, 75)]"
    if "rnd = round64 \<or> rnd = exact" "t c = 1 / 2"
      "controls c = [(0, 0), (0, 100), (100, 100), (100, 0)]"
    unfolding that(2,3) using that(1) by (rule de_casteljau_example)
  from c' q r b l e show ?thesis
    by (intro exI [of _ c']) simp
qed

theorem interpolate_de_casteljau_witness:
  "length (controlPoints (example_curve\<lparr>t := 1 / 2\<rparr>)) = 4 \<and>
   length (interpolationPoints (example_curve\<lparr>t := 1 / 2\<rparr>)) = 6 \<and>
   (\<exists>c'. interpolate round64 (example_curve\<lparr>t := 1 / 2\<rparr>) = Inr c' \<and>
      markers c' = [(0, 50), (50, 100), (100, 50), (25, 75), (75, 75), (50, 75)])"
  using interpolate_de_casteljau
    [where c = "example_curve\<lparr>t := 1 / 2\<rparr>" and rnd = round64 and a = 0 and b = 0 and v = 0]
  by (auto simp: controls_def example_curve_controls [unfolded controls_def])

lemma contains_integers:
  assumes "x p = of_int a" and "y p = of_int b" and "radius p = of_int r"
    and "\<bar>a\<bar> + \<bar>r\<bar> < 2 ^ 53" and "\<bar>b\<bar> + \<bar>r\<bar> < 2 ^ 53"
  shows "contains round64 p qx qy \<longleftrightarrow>
     x p - radius p \<le> qx \<and> qx \<le> x p + radius p \<and>
     y p - radius p \<le> qy \<and> qy \<le> y p + radius p"
proof -
  have "round64 (of_int (a - r)) = of_int (a - r)" "round64 (of_int (a + r)) = of_int (a + r)"
    "round64 (of_int (b - r)) = of_int (b - r)" "round64 (of_int (b + r)) = of_int (b + r)"
    using assms(4,5) by (intro round64_integer; linarith)+
  with assms(1-3) show ?thesis
    by (simp add: contains_def js_add_def js_sub_def)
qed

text \<open>
  C7. \<^verbatim>\<open>contains(x, y)\<close> is the test of the axis-aligned box of half-width \<open>radius\<close> around the
  centre, with both edges included: it is true if and only if \<open>cx - r \<le> x \<le> cx + r\<close> and
  \<open>cy - r \<le> y \<le> cy + r\<close>, the sums and differences being those the program computes.
  They are those of the reals in exact arithmetic and, in binary64, whenever the centre and
  the radius are integers. A control point at (100,100) of radius 12 contains (112,100)
  and not (113,100).
\<close>

theorem contains_bounding_box:
  "(contains rnd p qx qy \<longleftrightarrow>
      js_sub rnd (x p) (radius p) \<le> qx \<and> qx \<le> js_add rnd (x p) (radius p) \<and>
      js_sub rnd (y p) (radius p) \<le> qy \<and> qy \<le> js_add rnd (y p) (radius p)) \<and>
   (contains exact p qx qy \<longleftrightarrow>
      x p - radius p \<le> qx \<and> qx \<le> x p + radius p \<and>
      y p - radius p \<le> qy \<and> qy \<le> y p + radius p) \<and>
   (x p = of_int a \<and> y p = of_int b \<and> radius p = of_int r \<and>
    \<bar>a\<bar> + \<bar>r\<bar> < 2 ^ 53 \<and> \<bar>b\<bar> + \<bar>r\<bar> < 2 ^ 53 \<longrightarrow>
      (contains round64 p qx qy \<longleftrightarrow>
         x p - radius p \<le> qx \<and> qx \<le> x p + radius p \<and>
         y p - radius p \<le> qy \<and> qy \<le> y p + radius p)) \<and>
   contains round64 (DraggablePoint_new (100, 100) 12 DEFAULT_COLOR l) 112 100 \<and>
   \<not> contains round64 (DraggablePoint_new (100, 100) 12 DEFAULT_COLOR l) 113 100 \<and>
   contains round64 (DraggablePoint_new (100, 100) 12 DEFAULT_COLOR l) 88 112 \<and>
   \<not> contains round64 (DraggablePoint_new (100, 100) 12 DEFAULT_COLOR l) 88 (112 + 1 / 2 ^ 40)"
proof -
  have "contains round64 (DraggablePoint_new (100, 100) 12 DEFAULT_COLOR l) 112 100"
    "\<not> contains round64 (DraggablePoint_new (100, 100) 12 DEFAULT_COLOR l) 113 100"
    "contains round64 (DraggablePoint_new (100, 100) 12 DEFAULT_COLOR l) 88 112"
    "\<not> contains round64 (DraggablePoint_new (100, 100) 12 DEFAULT_COLOR l) 88 (112 + 1 / 2 ^ 40)"
    by (simp_all add: contains_def DraggablePoint_new_def js_add_def js_sub_def round64_eval)
  moreover have "contains exact p qx qy \<longleftrightarrow>
      x p - radius p \<le> qx \<and> qx \<le> x p + radius p \<and>
      y p - radius p \<le> qy \<and> qy \<le> y p + radius p"
    by (simp add: contains_def)
  ultimately show ?thesis
    using contains_integers [of p a b r qx qy] by (simp add: contains_def)
qed

theorem contains_bounding_box_witness:
  "x (DraggablePoint_new (100, 100) 12 DEFAULT_COLOR []) = of_int 100 \<and>
   y (DraggablePoint_new (100, 100) 12 DEFAULT_COLOR []) = of_int 100 \<and>
   radius (DraggablePoint_new (100, 100) 12 DEFAULT_COLOR []) = of_int 12 \<and>
   \<bar>100 :: int\<bar> + \<bar>12\<bar> < 2 ^ 53 \<and>
   contains round64 (DraggablePoint_new (100, 100) 12 DEFAULT_COLOR []) 112 100 \<and>
   \<not> contains round64 (DraggablePoint_new (100, 100) 12 DEFAULT_COLOR []) 113 100 \<and>
   (contains round64 (DraggablePoint_new (100, 100) 12 DEFAULT_COLOR []) 90 111 \<longleftrightarrow>
      (100 - 12 \<le> (90 :: rat) \<and> (90 :: rat) \<le> 100 + 12 \<and>
       100 - 12 \<le> (111 :: rat) \<and> (111 :: rat) \<le> 100 + 12))"
  using contains_bounding_box
    [where p = "DraggablePoint_new (100, 100) 12 DEFAULT_COLOR []" and a = 100 and b = 100
      and r = 12 and l = "[]" and qx = 90 and qy = 111 and rnd = round64]
  by (auto simp: DraggablePoint_new_def)

section \<open>The pointer handlers\<close>

lemma forEach_length: "length (fst (forEach f ps s)) = length ps"
proof (induction ps arbitrary: s)
  case Nil
  show ?case by simp
next
  case (Cons p ps)
  obtain p' s' where f: "f p s = (p', s')" by (cases "f p s")
  obtain ps' s'' where r: "forEach f ps s' = (ps', s'')" by (cases "forEach f ps s'")
  from Cons [of s'] r have "length ps' = length ps" by simp
  with f r show ?case by simp
qed

lemma handle_frame:
  "t (handle f c) = t c" "paused (handle f c) = paused c"
  "interpolating (handle f c) = interpolating c" "hovering (handle f c) = hovering c"
  "interpolationPoints (handle f c) = interpolationPoints c"
  "length (controlPoints (handle f c)) = length (controlPoints c)"
  using forEach_length [of f "controlPoints c" "BezierCurve.dragging c"]
  by (auto simp: handle_def split: prod.splits)

lemma pointer_event_fire:
  assumes "pointer_event ev"
  shows "\<exists>c'. fire rnd ev c = Inr c' \<and> t c' = t c \<and> paused c' = paused c \<and>
     interpolating c' = interpolating c \<and>
     interpolationPoints c' = interpolationPoints c \<and>
     length (controlPoints c') = length (controlPoints c)"
  using assms
  by (cases ev) (simp_all add: pointerdown_def pointermove_def pointerup_def handle_frame)

lemma pointer_events_run:
  assumes "list_all pointer_event evs"
  shows "\<exists>c'. run_events rnd evs c = Inr c' \<and> t c' = t c \<and> paused c' = paused c \<and>
     interpolating c' = interpolating c \<and>
     interpolationPoints c' = interpolationPoints c \<and>
     length (controlPoints c') = length (controlPoints c)"
  using assms
proof (induction evs arbitrary: c)
  case Nil
  then show ?case by simp
next
  case (Cons ev evs)
  then obtain c1 where c1: "fire rnd ev c = Inr c1" "t c1 = t c" "paused c1 = paused c"
    "interpolating c1 = interpolating c"
    "interpolationPoints c1 = interpolationPoints c"
    "length (controlPoints c1) = length (controlPoints c)"
    using pointer_event_fire [of ev rnd c] by auto
  from Cons obtain c' where "run_events rnd evs c1 = Inr c'" "t c' = t c1"
    "paused c' = paused c1" "interpolating c' = interpolating c1"
    "interpolationPoints c' = interpolationPoints c1"
    "length (controlPoints c') = length (controlPoints c1)"
    by fastforce
  with c1 show ?case by simp
qed

section \<open>Repeated calls\<close>

lemma interpolate_paused_again:
  assumes "paused c" and "4 \<le> length (controlPoints c)"
    and "length (interpolationPoints c) = 6" and "interpolate rnd c = Inr c1"
  shows "interpolate rnd c1 = Inr c1"
proof -
  from assms have c1: "c1 = c\<lparr>interpolationPoints :=
      place_markers (de_casteljau rnd (t c) (controls c)) (interpolationPoints c)\<rparr>"
    by (simp add: interpolate_closed update_t_def)
  let ?dc = "de_casteljau rnd (t c) (controls c)"
  have "place_markers ?dc (place_markers ?dc (interpolationPoints c)) =
      place_markers ?dc (interpolationPoints c)"
    using assms(3)
    by (intro nth_equalityI) (simp_all add: place_markers_length place_markers_nth)
  with assms(1-3) show ?thesis
    unfolding c1
    by (simp add: interpolate_closed update_t_def place_markers_length controls_def)
qed

lemma interpolate_paused_repeat:
  assumes "interpolate rnd c1 = Inr c1"
  shows "run_events rnd (replicate n Interpolate) c1 = Inr c1"
  using assms by (induction n) simp_all

lemma interpolate_unchanged:
  assumes "interpolate rnd c = Inr c'"
  shows "controlPoints c' = controlPoints c \<and>
     BezierCurve.dragging c' = BezierCurve.dragging c \<and>
     hovering c' = hovering c \<and> interpolating c' = interpolating c \<and>
     paused c' = paused c \<and>
     length (interpolationPoints c') = length (interpolationPoints c) \<and>
     (\<forall>i < length (interpolationPoints c).
        radius (interpolationPoints c' ! i) = radius (interpolationPoints c ! i) \<and>
        color (interpolationPoints c' ! i) = color (interpolationPoints c ! i) \<and>
        label (interpolationPoints c' ! i) = label (interpolationPoints c ! i) \<and>
        (6 \<le> i \<longrightarrow> interpolationPoints c' ! i = interpolationPoints c ! i)) \<and>
     (paused c \<longrightarrow> t c' = t c)"
proof -
  from assms have len: "4 \<le> length (controlPoints c)" "6 \<le> length (interpolationPoints c)"
    using interpolate_D by blast+
  with assms have c': "c' = update_t rnd (c\<lparr>interpolationPoints :=
      place_markers (de_casteljau rnd (t c) (controls c)) (interpolationPoints c)\<rparr>)"
    by (simp add: interpolate_closed)
  from len(2) show ?thesis
    unfolding c' by (simp add: update_t_def place_markers_length place_markers_nth)
qed

text \<open>
  C10. A call of \<^verbatim>\<open>interpolate()\<close> that returns has changed nothing but the coordinates of
  the first six markers and, when the curve is not paused, \<open>t\<close>: the control points, the
  four flags of the curve, the number of markers, and the radius, colour and label of
  every marker are as before.
\<close>

theorem interpolate_frame:
  assumes "interpolate rnd c = Inr c'"
  shows "controlPoints c' = controlPoints c \<and>
     BezierCurve.dragging c' = BezierCurve.dragging c \<and>
     hovering c' = hovering c \<and> interpolating c' = interpolating c \<and>
     paused c' = paused c \<and>
     length (interpolationPoints c') = length (interpolationPoints c) \<and>
     (\<forall>i < length (interpolationPoints c).
        radius (interpolationPoints c' ! i) = radius (interpolationPoints c ! i) \<and>
        color (interpolationPoints c' ! i) = color (interpolationPoints c ! i) \<and>
        label (interpolationPoints c' ! i) = label (interpolationPoints c ! i) \<and>
        (6 \<le> i \<longrightarrow> interpolationPoints c' ! i = interpolationPoints c ! i)) \<and>
     (paused c \<longrightarrow> t c' = t c)"
  using assms by (rule interpolate_unchanged)

theorem interpolate_frame_witness:
  "interpolate round64 example_curve = Inr (projr (interpolate round64 example_curve)) \<and>
   controlPoints (projr (interpolate round64 example_curve)) = controlPoints example_curve \<and>
   paused (projr (interpolate round64 example_curve)) = paused example_curve \<and>
   length (interpolationPoints (projr (interpolate round64 example_curve))) = 6"
proof -
  have h: "interpolate round64 example_curve = Inr (projr (interpolate round64 example_curve))"
    by (simp add: interpolate_closed)
  show ?thesis
    using h interpolate_frame [OF h] by simp
qed

section \<open>Construction\<close>

lemma BezierCurve_new_closed:
  "BezierCurve_new (a # b # c # r) =
     Inr \<lparr>controlPoints = load_points (a # b # c # r),
          interpolationPoints =
            [Point_new (fst a) 3 ''black'' [0x51, sub0],
             Point_new (fst b) 3 ''black'' [0x51, sub0 + 1],
             Point_new (fst c) 3 ''black'' [0x51, sub0 + 2],
             Point_new (fst a) 3 ''black'' [0x52, sub0],
             Point_new (fst b) 3 ''black'' [0x52, sub0 + 1],
             Point_new (fst a) 3 ''black'' [0x42]],
          t = 0, dragging = False, hovering = False, interpolating = False,
          paused = False\<rparr>"
  by (simp add: BezierCurve_new_def push_marker_def elem_def load_points_def
      DraggablePoint_new_def Point_new_def)

lemma BezierCurve_new_short: "length cs < 3 \<Longrightarrow> BezierCurve_new cs = Inl TypeError"
proof -
  assume "length cs < 3"
  then consider "cs = []" | a where "cs = [a]" | a b where "cs = [a, b]"
    by (cases cs; cases "tl cs"; cases "tl (tl cs)") auto
  then show ?thesis
    by cases (simp_all add: BezierCurve_new_def push_marker_def elem_def load_points_def)
qed

lemma BezierCurve_new_D:
  assumes "BezierCurve_new cs = Inr c"
  shows "3 \<le> length cs \<and> controlPoints c = load_points cs \<and>
     length (interpolationPoints c) = 6 \<and> t c = 0 \<and> \<not> BezierCurve.dragging c \<and>
     \<not> paused c \<and> \<not> interpolating c"
proof -
  have "3 \<le> length cs"
    using assms BezierCurve_new_short [of cs] by (cases "length cs < 3") auto
  then obtain a b c' r where "cs = a # b # c' # r"
    using at_least_three by blast
  with assms show ?thesis
    by (auto simp: BezierCurve_new_closed)
qed

lemma example_constructed: "BezierCurve_new example_coords = Inr example_curve"
  by (simp add: example_coords_def BezierCurve_new_closed example_curve_def)

text \<open>
  C5, as amended. While the curve is paused, a call of \<^verbatim>\<open>interpolate()\<close> leaves \<open>t\<close> as it is and sets
  the markers to De Casteljau's construction at that \<open>t\<close>; further calls change nothing at
  all. Pointer events between two such calls, which is how a control point is moved,
  change neither \<open>t\<close> nor the markers, and the next call sets the markers to the
  construction on the control points as they then are, at the same \<open>t\<close>.
\<close>

theorem paused_interpolate:
  assumes "paused c" and "4 \<le> length (controlPoints c)"
    and "length (interpolationPoints c) = 6" and "list_all pointer_event evs"
  shows "\<exists>c1 c2 c3.
     interpolate rnd c = Inr c1 \<and> t c1 = t c \<and>
     markers c1 = de_casteljau rnd (t c) (controls c) \<and>
     run_events rnd (replicate n Interpolate) c1 = Inr c1 \<and>
     run_events rnd evs c1 = Inr c2 \<and> t c2 = t c \<and> markers c2 = markers c1 \<and>
     interpolate rnd c2 = Inr c3 \<and> t c3 = t c \<and>
     markers c3 = de_casteljau rnd (t c) (controls c2)"
proof -
  from assms(1-3) obtain c1 where c1: "interpolate rnd c = Inr c1"
    "markers c1 = de_casteljau rnd (t c) (controls c)" "controlPoints c1 = controlPoints c"
    "t c1 = t c" "paused c1"
    using interpolate_result [of c rnd] by auto
  from c1(1) have len1: "length (interpolationPoints c1) = 6"
    using interpolate_unchanged [of rnd c c1] assms(3) by simp
  have again: "run_events rnd (replicate n Interpolate) c1 = Inr c1"
    using assms(1-3) c1(1) by (intro interpolate_paused_repeat interpolate_paused_again)
  from assms(4) obtain c2 where c2: "run_events rnd evs c1 = Inr c2" "t c2 = t c1"
    "paused c2 = paused c1" "interpolationPoints c2 = interpolationPoints c1"
    "length (controlPoints c2) = length (controlPoints c1)"
    using pointer_events_run [of evs rnd c1] by auto
  from c2 c1 len1 assms(2) obtain c3 where c3: "interpolate rnd c2 = Inr c3"
    "markers c3 = de_casteljau rnd (t c2) (controls c2)" "t c3 = t c2"
    using interpolate_result [of c2 rnd] by auto
  from c1 again c2 c3 show ?thesis
    by (auto simp: markers_def)
qed

theorem paused_interpolate_witness:
  "paused (pause example_curve) \<and> 4 \<le> length (controlPoints (pause example_curve)) \<and>
   length (interpolationPoints (pause example_curve)) = 6 \<and>
   list_all pointer_event [PointerDown 100 0, PointerMove 200 50, PointerUp 200 50] \<and>
   (\<exists>c1 c2 c3.
     interpolate round64 (pause example_curve) = Inr c1 \<and> t c1 = 0 \<and>
     run_events round64 (replicate 3 Interpolate) c1 = Inr c1 \<and>
     run_events round64 [PointerDown 100 0, PointerMove 200 50, PointerUp 200 50] c1 = Inr c2 \<and>
     t c2 = 0 \<and> markers c2 = markers c1 \<and>
     interpolate round64 c2 = Inr c3 \<and> t c3 = 0 \<and>
     markers c3 = de_casteljau round64 0 (controls c2))"
proof -
  have h: "paused (pause example_curve)" "4 \<le> length (controlPoints (pause example_curve))"
    "length (interpolationPoints (pause example_curve)) = 6"
    "list_all pointer_event [PointerDown 100 0, PointerMove 200 50, PointerUp 200 50]"
    by (simp_all add: pause_def)
  have z: "t (pause example_curve) = 0"
    by (simp add: pause_def example_curve_def)
  show ?thesis
    using h paused_interpolate [OF h, of round64 3] unfolding z by blast
qed

section \<open>Evaluating runs of the program\<close>

lemmas program_eval =
  program_def BezierCurve_new_closed interpolate_closed place_markers_def de_casteljau_def
  lerp2_def lerp_def update_t_def next_t_def step_binary64 pause_def run_def handle_def
  pointerdown_def pointermove_def pointerup_def
  pointerdown_point_def pointermove_point_def pointerup_point_def
  contains_def drag_def move_def hover_def default_state_def
  js_add_def js_sub_def js_mul_def
  load_points_def DraggablePoint_new_def Point_new_def markers_def controls_def position_def

text \<open>
  The claim C5 as it stands fails where it says that the markers change when a control
  point is moved between two paused calls. At \<open>t = 0\<close> the markers are P0, P1 and P2
  themselves: on the example scene, paused as constructed, dragging P3 from (100,0) to
  (200,50) between two calls of \<^verbatim>\<open>interpolate()\<close> leaves every marker where it was.
\<close>

theorem markers_unmoved_counterexample:
  "map_sum id markers (program round64 example_coords
       [Pause, Interpolate, PointerDown 100 0, PointerMove 200 50, PointerUp 200 50,
        Interpolate]) =
   map_sum id markers (program round64 example_coords [Pause, Interpolate]) \<and>
   map_sum id controls (program round64 example_coords [Pause, Interpolate]) =
     Inr [(0, 0), (0, 100), (100, 100), (100, 0)] \<and>
   map_sum id controls (program round64 example_coords
       [Pause, Interpolate, PointerDown 100 0, PointerMove 200 50, PointerUp 200 50,
        Interpolate]) =
     Inr [(0, 0), (0, 100), (100, 100), (200, 50)]"
  by (simp add: example_coords_def program_eval round64_eval)

section \<open>Convex combinations\<close>

lemma in_hull_weights:
  assumes "0 \<le> w0" and "0 \<le> w1" and "0 \<le> w2" and "0 \<le> w3"
    and "w0 + w1 + w2 + w3 = 1"
    and "fst p = w0 * fst a + w1 * fst b + w2 * fst c + w3 * fst d"
    and "snd p = w0 * snd a + w1 * snd b + w2 * snd c + w3 * snd d"
  shows "in_hull p [a, b, c, d]"
  unfolding in_hull_def
  using assms by (intro exI [of _ "[w0, w1, w2, w3]"]) (simp add: add.assoc)

lemma weighted_sum_same:
  assumes "length ws = length ps" and "\<forall>q \<in> set ps. f q = k"
  shows "sum_list (map (\<lambda>(w, q). w * f q) (zip ws ps)) = sum_list ws * (k :: rat)"
  using assms by (induction ws ps rule: list_induct2) (simp_all add: algebra_simps)

lemma in_hull_same:
  assumes "in_hull p ps" and "\<forall>q \<in> set ps. q = a"
  shows "p = a"
proof -
  from assms(1) obtain ws where ws: "length ws = length ps" "sum_list ws = 1"
    "fst p = sum_list (map (\<lambda>(w, q). w * fst q) (zip ws ps))"
    "snd p = sum_list (map (\<lambda>(w, q). w * snd q) (zip ws ps))"
    unfolding in_hull_def by blast
  from assms(2) have "\<forall>q \<in> set ps. fst q = fst a" "\<forall>q \<in> set ps. snd q = snd a"
    by simp_all
  with ws have "fst p = fst a" "snd p = snd a"
    using weighted_sum_same [of ws ps fst "fst a"] weighted_sum_same [of ws ps snd "snd a"]
    by simp_all
  then show ?thesis by (simp add: prod_eq_iff)
qed

lemma lerp2_exact:
  "fst (lerp2 exact A B v) = (1 - v) * fst A + v * fst B"
  "snd (lerp2 exact A B v) = (1 - v) * snd A + v * snd B"
  by (simp_all add: lerp2_def lerp_def exact_def)

lemma de_casteljau_exact_in_hull:
  assumes "0 \<le> v" and "v \<le> 1"
  shows "\<forall>m \<in> set (de_casteljau exact v [a, b, c, d]). in_hull m [a, b, c, d]"
proof -
  define u where "u = 1 - v"
  from assms have u: "0 \<le> u" by (simp add: u_def)
  note nonneg = assms(1) u mult_nonneg_nonneg
  let ?q0 = "lerp2 exact a b v" and ?q1 = "lerp2 exact b c v" and ?q2 = "lerp2 exact c d v"
  let ?r0 = "lerp2 exact ?q0 ?q1 v" and ?r1 = "lerp2 exact ?q1 ?q2 v"
  let ?b = "lerp2 exact ?r0 ?r1 v"
  have dc: "de_casteljau exact v [a, b, c, d] = [?q0, ?q1, ?q2, ?r0, ?r1, ?b]"
    by (simp add: de_casteljau_def)
  have q0: "in_hull ?q0 [a, b, c, d]"
  proof (rule in_hull_weights [of u v 0 0])
    show "0 \<le> u" "0 \<le> v" by (rule nonneg)+
  qed (simp_all add: u_def lerp2_exact)
  have q1: "in_hull ?q1 [a, b, c, d]"
  proof (rule in_hull_weights [of 0 u v 0])
    show "0 \<le> u" "0 \<le> v" by (rule nonneg)+
  qed (simp_all add: u_def lerp2_exact)
  have q2: "in_hull ?q2 [a, b, c, d]"
  proof (rule in_hull_weights [of 0 0 u v])
    show "0 \<le> u" "0 \<le> v" by (rule nonneg)+
  qed (simp_all add: u_def lerp2_exact)
  have r0: "in_hull ?r0 [a, b, c, d]"
  proof (rule in_hull_weights [of "u * u" "2 * (v * u)" "v * v" 0])
    show "0 \<le> u * u" "0 \<le> 2 * (v * u)" "0 \<le> v * v"
      by (intro nonneg | simp)+
  qed (simp_all add: u_def lerp2_exact algebra_simps)
  have r1: "in_hull ?r1 [a, b, c, d]"
  proof (rule in_hull_weights [of 0 "u * u" "2 * (v * u)" "v * v"])
    show "0 \<le> u * u" "0 \<le> 2 * (v * u)" "0 \<le> v * v"
      by (intro nonneg | simp)+
  qed (simp_all add: u_def lerp2_exact algebra_simps)
  have b: "in_hull ?b [a, b, c, d]"
  proof (rule in_hull_weights [of "u * u * u" "3 * (v * u * u)" "3 * (v * v * u)" "v * v * v"])
    show "0 \<le> u * u * u" "0 \<le> 3 * (v * u * u)" "0 \<le> 3 * (v * v * u)" "0 \<le> v * v * v"
      by (intro nonneg | simp)+
  qed (simp_all add: u_def lerp2_exact algebra_simps)
  from q0 q1 q2 r0 r1 b show ?thesis
    unfolding dc by simp
qed

subsection \<open>The rounding error of the construction\<close>

lemma round64_within: "rounds_within eps64 eta64 round64"
  unfolding rounds_within_def
proof
  fix q :: rat
  show "\<bar>round64 q - q\<bar> \<le> max (eps64 * \<bar>q\<bar>) eta64"
  proof (cases "q = 0")
    case True
    then show ?thesis
      by (simp add: round64_def eta64_def)
  next
    case False
    then have pos: "0 < \<bar>q\<bar>" by simp
    let ?L = "ilog2 \<bar>q\<bar>"
    have lo: "pow2 ?L \<le> \<bar>q\<bar>"
      using ilog2_bounds [OF pos] by simp
    have near: "\<bar>round64 q - q\<bar> \<le> pow2 (max ?L (- 1022) - 52) / 2"
      by (rule round64_nearest)
    show ?thesis
    proof (cases "- 1022 \<le> ?L")
      case True
      have "pow2 (?L - 52) = pow2 ?L * pow2 (- 52)"
        using pow2_add [of ?L "- 52"] by simp
      also have "pow2 (- 52) = 2 * eps64"
        by (simp add: pow2_def eps64_def)
      finally have "pow2 (?L - 52) / 2 = eps64 * pow2 ?L"
        by simp
      also have "\<dots> \<le> eps64 * \<bar>q\<bar>"
        using lo by (intro mult_left_mono) (simp_all add: eps64_def)
      finally show ?thesis
        using near True by (simp add: max_def)
    next
      case False
      have "pow2 (- 1074) / 2 = eta64"
        by (simp add: pow2_def eta64_def)
      with near False show ?thesis
        by (simp add: max_def)
    qed
  qed
qed

lemma rounds_within_bound:
  assumes "rounds_within e h rnd" and "0 \<le> e" and "0 \<le> h" and "\<bar>q\<bar> \<le> B"
  shows "\<bar>rnd q - q\<bar> \<le> e * B + h"
proof -
  from assms(1) have "\<bar>rnd q - q\<bar> \<le> max (e * \<bar>q\<bar>) h"
    by (simp add: rounds_within_def)
  moreover have "e * \<bar>q\<bar> \<le> e * B"
    using assms(2,4) by (rule mult_left_mono [rotated])
  moreover have "0 \<le> e * \<bar>q\<bar>"
    using assms(2) by simp
  ultimately show ?thesis
    using assms(3) by linarith
qed


lemma lerp_error:
  assumes rw: "rounds_within e h rnd" and e: "0 \<le> e" "e \<le> 1 / 128"
    and h: "0 \<le> h" "h \<le> e" and v: "0 \<le> v" "v \<le> 1"
    and a: "\<bar>a\<bar> \<le> B" and b: "\<bar>b\<bar> \<le> B"
  shows "\<bar>lerp rnd a b v - ((1 - v) * a + v * b)\<bar> \<le> 6 * (e * B) + 4 * h"
proof -
  from a have B: "0 \<le> B" by linarith
  define s where "s = rnd (1 - v)"
  define p1 where "p1 = rnd (s * a)"
  define p2 where "p2 = rnd (v * b)"
  define X where "X = e * B"
  define Y where "Y = e * X"
  define Z where "Z = e * Y"
  define W where "W = e * h"
  have X: "0 \<le> X" using e(1) B by (simp add: X_def)
  have Y: "0 \<le> Y" "Y \<le> X / 128"
    using e X mult_right_mono [of e "1 / 128" X] by (simp_all add: Y_def)
  have Z: "0 \<le> Z" "Z \<le> Y / 128"
    using e Y(1) mult_right_mono [of e "1 / 128" Y] by (simp_all add: Z_def)
  have W: "0 \<le> W" "W \<le> h / 128"
    using e h(1) mult_right_mono [of e "1 / 128" h] by (simp_all add: W_def)
  have l: "lerp rnd a b v = rnd (p1 + p2)"
    by (simp add: lerp_def s_def p1_def p2_def)
  have "\<bar>rnd (1 - v) - (1 - v)\<bar> \<le> max (e * \<bar>1 - v\<bar>) h"
    using rw by (simp add: rounds_within_def)
  moreover have "e * \<bar>1 - v\<bar> \<le> e * 1"
    using e(1) v by (intro mult_left_mono) simp_all
  ultimately have d1: "\<bar>s - (1 - v)\<bar> \<le> e"
    using h(2) by (simp add: s_def)
  with v have s: "\<bar>s\<bar> \<le> 1 + e" by linarith
  have "\<bar>s * a\<bar> \<le> (1 + e) * B"
    unfolding abs_mult using s a e(1) by (intro mult_mono) simp_all
  then have sa: "\<bar>s * a\<bar> \<le> B + X"
    by (simp add: X_def algebra_simps)
  have "\<bar>p1 - s * a\<bar> \<le> e * (B + X) + h"
    unfolding p1_def using rw e(1) h(1) sa by (rule rounds_within_bound)
  then have d2: "\<bar>p1 - s * a\<bar> \<le> X + Y + h"
    by (simp add: X_def Y_def algebra_simps)
  have "\<bar>v * b\<bar> \<le> 1 * B"
    unfolding abs_mult using v b by (intro mult_mono) simp_all
  then have vb: "\<bar>v * b\<bar> \<le> B" by simp
  have "\<bar>p2 - v * b\<bar> \<le> e * B + h"
    unfolding p2_def using rw e(1) h(1) vb by (rule rounds_within_bound)
  then have d3: "\<bar>p2 - v * b\<bar> \<le> X + h"
    by (simp add: X_def)
  from sa vb d2 d3 have sum: "\<bar>p1 + p2\<bar> \<le> B + B + (3 * X + Y + 2 * h)"
    by linarith
  have "\<bar>rnd (p1 + p2) - (p1 + p2)\<bar> \<le> e * (B + B + (3 * X + Y + 2 * h)) + h"
    using rw e(1) h(1) sum by (rule rounds_within_bound)
  then have d4: "\<bar>rnd (p1 + p2) - (p1 + p2)\<bar> \<le> 2 * X + 3 * Y + Z + 2 * W + h"
    by (simp add: X_def Y_def Z_def W_def algebra_simps)
  have "\<bar>(s - (1 - v)) * a\<bar> \<le> e * B"
    unfolding abs_mult using d1 a e(1) by (intro mult_mono) simp_all
  then have d0: "\<bar>(s - (1 - v)) * a\<bar> \<le> X"
    by (simp add: X_def)
  have "rnd (p1 + p2) - ((1 - v) * a + v * b) =
      (rnd (p1 + p2) - (p1 + p2)) + (p1 - s * a) + (p2 - v * b) + (s - (1 - v)) * a"
    by (simp add: algebra_simps)
  with d4 d2 d3 d0 have "\<bar>rnd (p1 + p2) - ((1 - v) * a + v * b)\<bar> \<le>
      (2 * X + 3 * Y + Z + 2 * W + h) + (X + Y + h) + (X + h) + X"
    by linarith
  with Y Z W X show ?thesis
    unfolding l X_def [symmetric] by linarith
qed

lemma lerp_exact_convex:
  assumes "0 \<le> v" and "v \<le> 1" and "\<bar>a - a'\<bar> \<le> d" and "\<bar>b - b'\<bar> \<le> d"
  shows "\<bar>((1 - v) * a + v * b) - ((1 - v) * a' + v * b')\<bar> \<le> (d :: rat)"
proof -
  have "\<bar>(1 - v) * (a - a')\<bar> \<le> (1 - v) * d"
    unfolding abs_mult using assms(2,3) by (intro mult_mono) simp_all
  moreover have "\<bar>v * (b - b')\<bar> \<le> v * d"
    unfolding abs_mult using assms(1,4) by (intro mult_mono) simp_all
  moreover have "((1 - v) * a + v * b) - ((1 - v) * a' + v * b') =
      (1 - v) * (a - a') + v * (b - b')"
    by (simp add: algebra_simps)
  moreover have "(1 - v) * d + v * d = d"
    by (simp add: algebra_simps)
  ultimately show ?thesis by linarith
qed


lemma lerp_exact_value: "lerp exact a b v = (1 - v) * a + v * b"
  by (simp add: lerp_def exact_def)

lemma lerp_exact_bound:
  assumes "0 \<le> v" and "v \<le> 1" and "\<bar>a\<bar> \<le> B" and "\<bar>b\<bar> \<le> B"
  shows "\<bar>lerp exact a b v\<bar> \<le> B"
  using lerp_exact_convex [of v a 0 B b 0] assms by (simp add: lerp_exact_value)

text \<open>
  One level of the construction: the operands carry an error of at most \<open>d\<close>, the result
  one of at most \<open>d\<close> and the rounding of this level.
\<close>

lemma lerp_level:
  assumes rw: "rounds_within e h rnd" and e: "0 \<le> e" "e \<le> 1 / 128"
    and h: "0 \<le> h" "h \<le> e" and v: "0 \<le> v" "v \<le> 1"
    and a: "\<bar>a - a'\<bar> \<le> d" "\<bar>a'\<bar> \<le> M" and b: "\<bar>b - b'\<bar> \<le> d" "\<bar>b'\<bar> \<le> M"
  shows "\<bar>lerp rnd a b v - lerp exact a' b' v\<bar> \<le> d + (6 * (e * (M + d)) + 4 * h)"
proof -
  from a b have "\<bar>a\<bar> \<le> M + d" "\<bar>b\<bar> \<le> M + d"
    by linarith+
  then have "\<bar>lerp rnd a b v - ((1 - v) * a + v * b)\<bar> \<le> 6 * (e * (M + d)) + 4 * h"
    by (rule lerp_error [OF rw e h v])
  moreover have "\<bar>((1 - v) * a + v * b) - ((1 - v) * a' + v * b')\<bar> \<le> d"
    using v a(1) b(1) by (rule lerp_exact_convex)
  ultimately show ?thesis
    unfolding lerp_exact_value by linarith
qed

text \<open>The three levels on one coordinate of four control points of absolute value at most \<open>M\<close>.\<close>

lemma de_casteljau_coordinate:
  assumes rw: "rounds_within e h rnd" and e: "0 \<le> e" "e \<le> 1 / 128"
    and h: "0 \<le> h" "h \<le> e" and v: "0 \<le> v" "v \<le> 1"
    and M: "\<bar>a0\<bar> \<le> M" "\<bar>a1\<bar> \<le> M" "\<bar>a2\<bar> \<le> M" "\<bar>a3\<bar> \<le> M"
  defines "D \<equiv> 20 * (e * M) + 14 * h"
  shows "\<bar>lerp rnd a0 a1 v - lerp exact a0 a1 v\<bar> \<le> D"
    and "\<bar>lerp rnd a1 a2 v - lerp exact a1 a2 v\<bar> \<le> D"
    and "\<bar>lerp rnd a2 a3 v - lerp exact a2 a3 v\<bar> \<le> D"
    and "\<bar>lerp rnd (lerp rnd a0 a1 v) (lerp rnd a1 a2 v) v -
          lerp exact (lerp exact a0 a1 v) (lerp exact a1 a2 v) v\<bar> \<le> D"
    and "\<bar>lerp rnd (lerp rnd a1 a2 v) (lerp rnd a2 a3 v) v -
          lerp exact (lerp exact a1 a2 v) (lerp exact a2 a3 v) v\<bar> \<le> D"
    and "\<bar>lerp rnd (lerp rnd (lerp rnd a0 a1 v) (lerp rnd a1 a2 v) v)
            (lerp rnd (lerp rnd a1 a2 v) (lerp rnd a2 a3 v) v) v -
          lerp exact (lerp exact (lerp exact a0 a1 v) (lerp exact a1 a2 v) v)
            (lerp exact (lerp exact a1 a2 v) (lerp exact a2 a3 v) v) v\<bar> \<le> D"
proof -
  from M(1) have M0: "0 \<le> M" by linarith
  define X where "X = e * M"
  define W where "W = e * h"
  have X: "0 \<le> X" using e(1) M0 by (simp add: X_def)
  define Y where "Y = e * X"
  have eX: "0 \<le> Y" "Y \<le> X / 128"
    using e X mult_right_mono [of e "1 / 128" X] by (simp_all add: Y_def)
  have W: "0 \<le> W" "W \<le> h / 128"
    using e h(1) mult_right_mono [of e "1 / 128" h] by (simp_all add: W_def)
  note level = lerp_level [OF rw e h v]
  have first: "\<bar>lerp rnd a b v - lerp exact a b v\<bar> \<le> 6 * X + 4 * h"
    if "\<bar>a\<bar> \<le> M" "\<bar>b\<bar> \<le> M" for a b
    using level [of a a 0 M b b] that by (simp add: X_def)
  have exact1: "\<bar>lerp exact a b v\<bar> \<le> M" if "\<bar>a\<bar> \<le> M" "\<bar>b\<bar> \<le> M" for a b
    using v that by (rule lerp_exact_bound)
  have second: "\<bar>lerp rnd a b v - lerp exact a' b' v\<bar> \<le> 13 * X + 9 * h"
    if "\<bar>a - a'\<bar> \<le> 6 * X + 4 * h" "\<bar>a'\<bar> \<le> M"
      "\<bar>b - b'\<bar> \<le> 6 * X + 4 * h" "\<bar>b'\<bar> \<le> M" for a a' b b'
  proof -
    have "\<bar>lerp rnd a b v - lerp exact a' b' v\<bar> \<le>
        (6 * X + 4 * h) + (6 * (e * (M + (6 * X + 4 * h))) + 4 * h)"
      using that by (rule level)
    also have "6 * (e * (M + (6 * X + 4 * h))) = 6 * X + 36 * Y + 24 * W"
      by (simp add: X_def Y_def W_def algebra_simps)
    finally show ?thesis
      using eX W X h(1) by linarith
  qed
  have third: "\<bar>lerp rnd a b v - lerp exact a' b' v\<bar> \<le> 20 * X + 14 * h"
    if "\<bar>a - a'\<bar> \<le> 13 * X + 9 * h" "\<bar>a'\<bar> \<le> M"
      "\<bar>b - b'\<bar> \<le> 13 * X + 9 * h" "\<bar>b'\<bar> \<le> M" for a a' b b'
  proof -
    have "\<bar>lerp rnd a b v - lerp exact a' b' v\<bar> \<le>
        (13 * X + 9 * h) + (6 * (e * (M + (13 * X + 9 * h))) + 4 * h)"
      using that by (rule level)
    also have "6 * (e * (M + (13 * X + 9 * h))) = 6 * X + 78 * Y + 54 * W"
      by (simp add: X_def Y_def W_def algebra_simps)
    finally show ?thesis
      using eX W X h(1) by linarith
  qed
  have D: "D = 20 * X + 14 * h"
    by (simp add: D_def X_def)
  note q = first [OF M(1,2)] first [OF M(2,3)] first [OF M(3,4)]
  note qe = exact1 [OF M(1,2)] exact1 [OF M(2,3)] exact1 [OF M(3,4)]
  note r = second [OF q(1) qe(1) q(2) qe(2)] second [OF q(2) qe(2) q(3) qe(3)]
  note re = exact1 [OF qe(1,2)] exact1 [OF qe(2,3)]
  note b = third [OF r(1) re(1) r(2) re(2)]
  from q X h(1) show "\<bar>lerp rnd a0 a1 v - lerp exact a0 a1 v\<bar> \<le> D"
    "\<bar>lerp rnd a1 a2 v - lerp exact a1 a2 v\<bar> \<le> D"
    "\<bar>lerp rnd a2 a3 v - lerp exact a2 a3 v\<bar> \<le> D"
    unfolding D by linarith+
  from r X h(1) show "\<bar>lerp rnd (lerp rnd a0 a1 v) (lerp rnd a1 a2 v) v -
          lerp exact (lerp exact a0 a1 v) (lerp exact a1 a2 v) v\<bar> \<le> D"
    "\<bar>lerp rnd (lerp rnd a1 a2 v) (lerp rnd a2 a3 v) v -
          lerp exact (lerp exact a1 a2 v) (lerp exact a2 a3 v) v\<bar> \<le> D"
    unfolding D by linarith+
  from b show "\<bar>lerp rnd (lerp rnd (lerp rnd a0 a1 v) (lerp rnd a1 a2 v) v)
            (lerp rnd (lerp rnd a1 a2 v) (lerp rnd a2 a3 v) v) v -
          lerp exact (lerp exact (lerp exact a0 a1 v) (lerp exact a1 a2 v) v)
            (lerp exact (lerp exact a1 a2 v) (lerp exact a2 a3 v) v) v\<bar> \<le> D"
    unfolding D .
qed


lemma de_casteljau_near_exact:
  assumes rw: "rounds_within e h rnd" and e: "0 \<le> e" "e \<le> 1 / 128"
    and h: "0 \<le> h" "h \<le> e" and v: "0 \<le> v" "v \<le> 1"
    and M: "\<forall>q \<in> set [p0, p1, p2, p3]. \<bar>fst q\<bar> \<le> M \<and> \<bar>snd q\<bar> \<le> M"
    and i: "i < 6"
  shows "\<bar>fst (de_casteljau rnd v [p0, p1, p2, p3] ! i) -
           fst (de_casteljau exact v [p0, p1, p2, p3] ! i)\<bar> \<le> 20 * (e * M) + 14 * h \<and>
         \<bar>snd (de_casteljau rnd v [p0, p1, p2, p3] ! i) -
           snd (de_casteljau exact v [p0, p1, p2, p3] ! i)\<bar> \<le> 20 * (e * M) + 14 * h"
proof -
  from M have Mx: "\<bar>fst p0\<bar> \<le> M" "\<bar>fst p1\<bar> \<le> M" "\<bar>fst p2\<bar> \<le> M" "\<bar>fst p3\<bar> \<le> M"
    and My: "\<bar>snd p0\<bar> \<le> M" "\<bar>snd p1\<bar> \<le> M" "\<bar>snd p2\<bar> \<le> M" "\<bar>snd p3\<bar> \<le> M"
    by simp_all
  note cx = de_casteljau_coordinate [OF rw e h v Mx]
  note cy = de_casteljau_coordinate [OF rw e h v My]
  from i consider "i = 0" | "i = 1" | "i = 2" | "i = 3" | "i = 4" | "i = 5"
    by linarith
  then show ?thesis
  proof cases
    case 1
    with cx(1) cy(1) show ?thesis by (simp add: de_casteljau_def lerp2_def)
  next
    case 2
    with cx(2) cy(2) show ?thesis by (simp add: de_casteljau_def lerp2_def)
  next
    case 3
    with cx(3) cy(3) show ?thesis by (simp add: de_casteljau_def lerp2_def)
  next
    case 4
    with cx(4) cy(4) show ?thesis by (simp add: de_casteljau_def lerp2_def eval_nat_numeral)
  next
    case 5
    with cx(5) cy(5) show ?thesis by (simp add: de_casteljau_def lerp2_def eval_nat_numeral)
  next
    case 6
    with cx(6) cy(6) show ?thesis by (simp add: de_casteljau_def lerp2_def eval_nat_numeral)
  qed
qed

text \<open>
  C2, as amended. For \<open>0 \<le> t < 1\<close> and any 4 control points whose coordinates are at most
  \<open>M\<close> in absolute value, every marker that \<^verbatim>\<open>interpolate()\<close> computes is within a rounding
  error of the convex hull of the control positions: there is a convex combination of
  them, the point of the construction in exact arithmetic, from which the marker differs
  by at most \<open>20 * 2^-53 * M + 14 * 2^-1075\<close> on each coordinate. In exact arithmetic the
  marker is that convex combination. The allowance is needed: see
  \<open>markers_outside_hull_counterexample\<close>.
\<close>

theorem markers_near_hull_binary64:
  assumes "length (controlPoints c) = 4" and "length (interpolationPoints c) = 6"
    and "0 \<le> t c" and "t c < 1"
    and "\<forall>q \<in> set (controls c). \<bar>fst q\<bar> \<le> M \<and> \<bar>snd q\<bar> \<le> M"
  shows "(\<exists>c'. interpolate round64 c = Inr c' \<and> controls c' = controls c \<and>
            markers_near_hull (20 * (eps64 * M) + 14 * eta64) c') \<and>
         (\<exists>c'. interpolate exact c = Inr c' \<and> controls c' = controls c \<and> markers_in_hull c')"
proof -
  from assms(1) have "length (controls c) = 4"
    by (simp add: controls_def)
  then obtain p0 p1 p2 p3 where P: "controls c = [p0, p1, p2, p3]"
    by (auto simp: length_Suc_conv eval_nat_numeral)
  from assms(3,4) have hull: "\<forall>m \<in> set (de_casteljau exact (t c) [p0, p1, p2, p3]).
      in_hull m [p0, p1, p2, p3]"
    by (intro de_casteljau_exact_in_hull) simp_all
  from assms(1,2) obtain c1 where c1: "interpolate round64 c = Inr c1"
    "markers c1 = de_casteljau round64 (t c) (controls c)" "controlPoints c1 = controlPoints c"
    using interpolate_result [of c round64] by auto
  from assms(1,2) obtain c2 where c2: "interpolate exact c = Inr c2"
    "markers c2 = de_casteljau exact (t c) (controls c)" "controlPoints c2 = controlPoints c"
    using interpolate_result [of c exact] by auto
  have small: "0 \<le> eps64" "eps64 \<le> 1 / 128" "0 \<le> eta64" "eta64 \<le> eps64"
    by (simp_all add: eps64_def eta64_def)
  have v: "0 \<le> t c" "t c \<le> 1"
    using assms(3,4) by simp_all
  have M: "\<forall>q \<in> set [p0, p1, p2, p3]. \<bar>fst q\<bar> \<le> M \<and> \<bar>snd q\<bar> \<le> M"
    using assms(5) P by simp
  have "near_hull (20 * (eps64 * M) + 14 * eta64) m [p0, p1, p2, p3]"
    if "m \<in> set (de_casteljau round64 (t c) [p0, p1, p2, p3])" for m
  proof -
    from that obtain i where i: "i < 6" "m = de_casteljau round64 (t c) [p0, p1, p2, p3] ! i"
      by (auto simp: in_set_conv_nth)
    let ?h = "de_casteljau exact (t c) [p0, p1, p2, p3] ! i"
    from i(1) have "?h \<in> set (de_casteljau exact (t c) [p0, p1, p2, p3])"
      by (intro nth_mem) simp
    with hull have "in_hull ?h [p0, p1, p2, p3]" by blast
    moreover note de_casteljau_near_exact [OF round64_within small v M i(1)]
    ultimately show ?thesis
      unfolding near_hull_def i(2) by blast
  qed
  with c1 P have "markers_near_hull (20 * (eps64 * M) + 14 * eta64) c1"
    by (simp add: markers_near_hull_def controls_def)
  moreover from c2 P hull have "markers_in_hull c2"
    by (simp add: markers_in_hull_def controls_def)
  ultimately show ?thesis
    using c1 c2 by (auto simp: controls_def)
qed

theorem markers_near_hull_binary64_witness:
  "length (controlPoints (projr (program round64 stacked_coords [Interpolate]))) = 4 \<and>
   length (interpolationPoints (projr (program round64 stacked_coords [Interpolate]))) = 6 \<and>
   t (projr (program round64 stacked_coords [Interpolate])) = 5764607523034235 / 2 ^ 60 \<and>
   controls (projr (program round64 stacked_coords [Interpolate])) =
     [(57, 57), (57, 57), (57, 57), (57, 57)] \<and>
   (\<exists>c'. interpolate round64 (projr (program round64 stacked_coords [Interpolate])) = Inr c' \<and>
      markers_near_hull (20 * (eps64 * 57) + 14 * eta64) c')"
proof -
  let ?c = "projr (program round64 stacked_coords [Interpolate])"
  have h: "length (controlPoints ?c) = 4" "length (interpolationPoints ?c) = 6"
    "0 \<le> t ?c" "t ?c < 1" "\<forall>q \<in> set (controls ?c). \<bar>fst q\<bar> \<le> 57 \<and> \<bar>snd q\<bar> \<le> 57"
    and s: "t ?c = 5764607523034235 / 2 ^ 60"
      "controls ?c = [(57, 57), (57, 57), (57, 57), (57, 57)]"
    by (simp_all add: stacked_coords_def program_eval round64_eval)
  show ?thesis
    using h s markers_near_hull_binary64 [OF h] by blast
qed

text \<open>
  The claim C2 as it stands fails in binary64. With the four control points at (57,57),
  whose hull is that one point, the second call of \<^verbatim>\<open>interpolate()\<close> runs at
  \<open>t = 0.005\<close> and puts Q0 at \<open>x = 56.99999999999999\<close>, which is \<open>2^-47\<close> below 57.
\<close>

theorem markers_outside_hull_counterexample:
  "map_sum id markers_in_hull (program round64 stacked_coords [Interpolate, Interpolate]) =
     Inr False"
proof -
  obtain c where c: "program round64 stacked_coords [Interpolate, Interpolate] = Inr c"
    "controls c = [(57, 57), (57, 57), (57, 57), (57, 57)]"
    "fst (markers c ! 0) = 8022036836253695 / 2 ^ 47"
    by (simp add: stacked_coords_def program_eval round64_eval)
  have "\<not> in_hull (markers c ! 0) (controls c)"
  proof
    assume "in_hull (markers c ! 0) (controls c)"
    then have "markers c ! 0 = (57, 57)"
      by (rule in_hull_same) (simp add: c(2))
    with c(3) show False by simp
  qed
  moreover have "markers c ! 0 \<in> set (markers c)"
    using c(1) by (intro nth_mem) (auto simp: stacked_coords_def program_eval)
  ultimately have "\<not> markers_in_hull c"
    unfolding markers_in_hull_def by blast
  with c(1) show ?thesis by simp
qed

section \<open>The parameter t\<close>

lemma funpow_next: "(f ^^ Suc k) v = (f ^^ k) (f v)"
  by (simp add: funpow_swap1)

lemma excursion_values:
  assumes "excursion rnd n v"
  shows "(next_t rnd ^^ n) v = 0 \<and>
     (\<forall>k < n. 0 < (next_t rnd ^^ k) v \<and> (next_t rnd ^^ k) v < 1)"
  using assms
proof (induction n arbitrary: v)
  case 0
  then show ?case by simp
next
  case (Suc n)
  then have v: "0 < v" "v < 1" and rest: "excursion rnd n (next_t rnd v)"
    by simp_all
  from Suc.IH [OF rest] have ih: "(next_t rnd ^^ n) (next_t rnd v) = 0"
    "\<And>k. k < n \<Longrightarrow> 0 < (next_t rnd ^^ k) (next_t rnd v) \<and> (next_t rnd ^^ k) (next_t rnd v) < 1"
    by simp_all
  have "0 < (next_t rnd ^^ k) v \<and> (next_t rnd ^^ k) v < 1" if "k < Suc n" for k
  proof (cases k)
    case 0
    with v show ?thesis by simp
  next
    case (Suc j)
    with that ih(2) [of j] show ?thesis
      by (simp add: funpow_next del: funpow.simps)
  qed
  with ih(1) show ?case
    by (simp add: funpow_next del: funpow.simps)
qed

lemma excursion_numeral:
  "excursion rnd (numeral k) v \<longleftrightarrow>
     0 < v \<and> v < 1 \<and> excursion rnd (pred_numeral k) (next_t rnd v)"
  by (simp add: numeral_eq_Suc)

text \<open>
  In binary64 the 199 values of \<open>t\<close> after the first are strictly between 0 and 1, and the
  200th addition of \<^verbatim>\<open>1 / 200\<close> gives \<^verbatim>\<open>1.0000000000000007\<close>, which is beyond 1.
\<close>

lemma first_step_binary64: "next_t round64 0 = 5764607523034235 / 2 ^ 60"
  by (simp add: next_t_def js_add_def step_binary64 round64_eval)

lemma excursion_binary64: "excursion round64 199 (next_t round64 0)"
  unfolding first_step_binary64
  by (simp add: excursion_numeral next_t_def js_add_def step_binary64 round64_eval)

lemma cycle_binary64:
  "(next_t round64 ^^ 200) 0 = 0"
  "0 < k \<Longrightarrow> k < 200 \<Longrightarrow> 0 < (next_t round64 ^^ k) 0 \<and> (next_t round64 ^^ k) 0 < 1"
proof -
  note e = excursion_values [OF excursion_binary64]
  show "(next_t round64 ^^ 200) 0 = 0"
    using e funpow_next [where f = "next_t round64" and k = 199 and v = 0]
    by (simp del: funpow.simps)
  assume k: "0 < k" "k < 200"
  then obtain j where j: "k = Suc j" "j < 199"
    by (cases k) simp_all
  with e show "0 < (next_t round64 ^^ k) 0 \<and> (next_t round64 ^^ k) 0 < 1"
    by (simp add: funpow_next del: funpow.simps)
qed

text \<open>
  In exact arithmetic the 200th step would reach 1 exactly, which the comparison
  \<^verbatim>\<open>this.t > 1\<close> lets through: the return to 0 at the 200th call is an effect of rounding.
\<close>

lemma exact_steps: "k \<le> 200 \<Longrightarrow> (next_t exact ^^ k) 0 = of_nat k / 200"
proof (induction k)
  case 0
  show ?case by simp
next
  case (Suc k)
  then have ih: "(next_t exact ^^ k) 0 = of_nat k / 200" and "k < 200"
    by simp_all
  then have "of_nat k + 1 \<le> (200 :: rat)"
    using of_nat_mono [of "Suc k" 200, where ?'a = rat] by simp
  then have "\<not> 1 < of_nat k / 200 + (1 / 200 :: rat)"
    by (simp add: field_simps)
  then have "next_t exact (of_nat k / 200) = of_nat k / 200 + 1 / 200"
    by (simp add: next_t_def totalSteps_def)
  then show ?case
    unfolding funpow.simps o_apply ih by (simp add: add_divide_distrib)
qed

lemma exact_reaches_one: "(next_t exact ^^ 200) 0 = 1"
  using exact_steps [of 200] by simp

lemma interpolate_t:
  assumes "interpolate rnd c = Inr c'"
  shows "t c' = (if paused c then t c else next_t rnd (t c))"
proof -
  from assms have "4 \<le> length (controlPoints c)" "6 \<le> length (interpolationPoints c)"
    using interpolate_D by blast+
  with assms show ?thesis
    by (auto simp: interpolate_closed update_t_def)
qed

lemma unpaused_calls:
  assumes "\<not> paused c" and "4 \<le> length (controlPoints c)"
    and "length (interpolationPoints c) = 6"
  shows "\<exists>c'. run_events rnd (replicate n Interpolate) c = Inr c' \<and>
     t c' = (next_t rnd ^^ n) (t c)"
  using assms
proof (induction n arbitrary: c)
  case 0
  show ?case by simp
next
  case (Suc n)
  then obtain c1 where c1: "interpolate rnd c = Inr c1" "controlPoints c1 = controlPoints c"
    "t c1 = next_t rnd (t c)" "\<not> paused c1"
    using interpolate_result [of c rnd] by auto
  then have "length (interpolationPoints c1) = 6"
    using interpolate_unchanged [of rnd c c1] Suc.prems by simp
  with c1 Suc.prems obtain c' where "run_events rnd (replicate n Interpolate) c1 = Inr c'"
    "t c' = (next_t rnd ^^ n) (t c1)"
    using Suc.IH [of c1] by auto
  with c1 show ?case
    by (simp add: funpow_next del: funpow.simps)
qed

text \<open>
  C3. On a curve that is not paused and has \<open>t = 0\<close>, 200 calls of \<^verbatim>\<open>interpolate()\<close> all
  return and leave \<open>t\<close> at exactly 0; after any smaller positive number of calls \<open>t\<close> is
  strictly between 0 and 1.
\<close>

theorem wrap_after_200_calls:
  assumes "t c = 0" and "\<not> paused c" and "4 \<le> length (controlPoints c)"
    and "length (interpolationPoints c) = 6"
  shows "(\<exists>c'. run_events round64 (replicate 200 Interpolate) c = Inr c' \<and> t c' = 0) \<and>
     (0 < k \<and> k < 200 \<longrightarrow>
        (\<exists>c'. run_events round64 (replicate k Interpolate) c = Inr c' \<and> 0 < t c' \<and> t c' < 1))"
  using unpaused_calls [OF assms(2-4), of round64 200]
    unpaused_calls [OF assms(2-4), of round64 k] cycle_binary64(1) cycle_binary64(2) [of k]
    assms(1)
  by auto

theorem wrap_after_200_calls_witness:
  "t example_curve = 0 \<and> \<not> paused example_curve \<and>
   4 \<le> length (controlPoints example_curve) \<and>
   length (interpolationPoints example_curve) = 6 \<and>
   (\<exists>c'. run_events round64 (replicate 200 Interpolate) example_curve = Inr c' \<and> t c' = 0) \<and>
   (\<exists>c'. run_events round64 (replicate 199 Interpolate) example_curve = Inr c' \<and>
      0 < t c' \<and> t c' < 1)"
proof -
  have h: "t example_curve = 0" "\<not> paused example_curve"
    "4 \<le> length (controlPoints example_curve)"
    "length (interpolationPoints example_curve) = 6"
    by (simp_all add: example_curve_def load_points_def example_coords_def)
  show ?thesis
    using h wrap_after_200_calls [OF h, of 199] by simp
qed

section \<open>Reachable states\<close>

lemma run_events_reachable:
  assumes "reachable rnd c" and "run_events rnd evs c = Inr c'"
  shows "reachable rnd c'"
  using assms
proof (induction evs arbitrary: c)
  case Nil
  then show ?case by simp
next
  case (Cons ev evs)
  from Cons.prems(2) obtain c1 where "fire rnd ev c = Inr c1" "run_events rnd evs c1 = Inr c'"
    by (auto simp: bindE_eq_Inr)
  with Cons.prems(1) Cons.IH [of c1] show ?case
    by (blast intro: reachable.fired)
qed

lemma program_reachable: "program rnd cs evs = Inr c \<Longrightarrow> reachable rnd c"
  unfolding program_def bindE_eq_Inr
  by (blast intro: reachable.constructed run_events_reachable)

lemma fire_t:
  assumes "fire rnd ev c = Inr c'"
  shows "t c' = t c \<or> t c' = next_t rnd (t c)"
proof (cases ev)
  case Interpolate
  with assms show ?thesis
    using interpolate_t [of rnd c c'] by auto
next
  case Frame
  with assms show ?thesis
    using interpolate_t [of rnd c c']
    by (auto simp: animate_def bindE_eq_Inr split: if_splits)
qed (use assms in \<open>auto simp: pause_def run_def loadControlPoints_def pointerdown_def
      pointermove_def pointerup_def handle_frame showButton_click_def pauseButton_click_def\<close>)

lemma reachable_t_on_cycle:
  assumes "reachable round64 c"
  shows "\<exists>k < 200. t c = (next_t round64 ^^ k) 0"
  using assms
proof (induction rule: reachable.induct)
  case (constructed cs c)
  then have "t c = 0"
    using BezierCurve_new_D by blast
  then show ?case
    by (intro exI [of _ 0]) simp
next
  case (fired c ev c')
  then obtain k where k: "k < 200" "t c = (next_t round64 ^^ k) 0"
    by blast
  from fired(2) consider "t c' = t c" | "t c' = next_t round64 (t c)"
    using fire_t by blast
  then show ?case
  proof cases
    case 1
    with k show ?thesis by auto
  next
    case 2
    with k have nxt: "t c' = (next_t round64 ^^ Suc k) 0"
      by simp
    show ?thesis
    proof (cases "Suc k < 200")
      case True
      with nxt show ?thesis by blast
    next
      case False
      with k(1) have "Suc k = 200" by simp
      with nxt have "t c' = (next_t round64 ^^ 0) 0"
        using cycle_binary64(1) by simp
      then show ?thesis
        by (intro exI [of _ 0]) simp
    qed
  qed
qed

text \<open>
  C4. In every state that the program reaches from the construction of the curve, by calls
  of \<^verbatim>\<open>interpolate()\<close>, \<^verbatim>\<open>pause()\<close>, \<^verbatim>\<open>run()\<close> and \<^verbatim>\<open>loadControlPoints()\<close>, pointer events,
  button clicks and animation frames in any order, \<open>0 \<le> t < 1\<close>.
\<close>

theorem t_in_unit_interval:
  assumes "reachable round64 c"
  shows "0 \<le> t c \<and> t c < 1"
proof -
  from assms obtain k where k: "k < 200" "t c = (next_t round64 ^^ k) 0"
    using reachable_t_on_cycle by blast
  show ?thesis
  proof (cases k)
    case 0
    with k show ?thesis by simp
  next
    case (Suc j)
    with k cycle_binary64(2) [of k] show ?thesis by simp
  qed
qed

theorem t_in_unit_interval_witness:
  "reachable round64 (projr (program round64 example_coords [Interpolate, Pause, Interpolate])) \<and>
   t (projr (program round64 example_coords [Interpolate, Pause, Interpolate])) =
     5764607523034235 / 2 ^ 60 \<and>
   0 \<le> t (projr (program round64 example_coords [Interpolate, Pause, Interpolate])) \<and>
   t (projr (program round64 example_coords [Interpolate, Pause, Interpolate])) < 1"
proof -
  let ?r = "program round64 example_coords [Interpolate, Pause, Interpolate]"
  have "?r = Inr (projr ?r)" "t (projr ?r) = 5764607523034235 / 2 ^ 60"
    by (simp_all add: example_coords_def program_eval round64_eval)
  then have h: "reachable round64 (projr ?r)" and "t (projr ?r) = 5764607523034235 / 2 ^ 60"
    using program_reachable [of round64 example_coords _ "projr ?r"] by simp_all
  then show ?thesis
    using t_in_unit_interval [OF h] by simp
qed

section \<open>Dragging\<close>

lemma forEach_pointerdown_dragging:
  "forEach (pointerdown_point rnd ex ey) ps True = (ps, True)"
proof (induction ps)
  case Nil
  show ?case by simp
next
  case (Cons p ps)
  have "pointerdown_point rnd ex ey p True = (p, True)"
    by (simp add: pointerdown_point_def)
  with Cons show ?case by simp
qed

lemma forEach_pointerdown_first:
  assumes "i < length ps" and "contains rnd (ps ! i) ex ey"
    and "\<forall>j < i. \<not> contains rnd (ps ! j) ex ey"
  shows "forEach (pointerdown_point rnd ex ey) ps False = (ps[i := drag (ps ! i)], True)"
  using assms
proof (induction ps arbitrary: i)
  case Nil
  then show ?case by simp
next
  case (Cons p ps)
  show ?case
  proof (cases i)
    case 0
    with Cons.prems have "pointerdown_point rnd ex ey p False = (drag p, True)"
      by (simp add: pointerdown_point_def)
    with 0 show ?thesis
      by (simp add: forEach_pointerdown_dragging)
  next
    case (Suc j)
    with Cons.prems have "\<not> contains rnd p ex ey"
      by auto
    then have "pointerdown_point rnd ex ey p False = (p, False)"
      by (simp add: pointerdown_point_def)
    moreover from Suc Cons.prems have "j < length ps" "contains rnd (ps ! j) ex ey"
      "\<forall>k < j. \<not> contains rnd (ps ! k) ex ey"
      by auto
    ultimately show ?thesis
      using Suc Cons.IH [of j] by simp
  qed
qed

lemma drag_dragging [simp]: "DraggablePoint.dragging (drag p)"
  by (simp add: drag_def)

lemma filter_update_none:
  assumes "i < length ps" and "filter P ps = []" and "P v"
  shows "filter P (ps[i := v]) = [v]"
  using assms
proof (induction ps arbitrary: i)
  case Nil
  then show ?case by simp
next
  case (Cons p ps)
  then show ?case
    by (cases i) (auto split: if_splits simp: filter_empty_conv dest: set_update_subset_insert [THEN subsetD])
qed

lemma forEach_pointermove_dragging:
  "map DraggablePoint.dragging (fst (forEach (pointermove_point rnd ex ey) ps d)) =
     map DraggablePoint.dragging ps \<and> snd (forEach (pointermove_point rnd ex ey) ps d) = d"
proof (induction ps)
  case Nil
  show ?case by simp
next
  case (Cons p ps)
  obtain p' d' where f: "pointermove_point rnd ex ey p d = (p', d')"
    by (cases "pointermove_point rnd ex ey p d")
  then have "DraggablePoint.dragging p' = DraggablePoint.dragging p" "d' = d"
    by (auto simp: pointermove_point_def move_def hover_def default_state_def split: if_splits)
  moreover obtain ps' d'' where "forEach (pointermove_point rnd ex ey) ps d = (ps', d'')"
    by (cases "forEach (pointermove_point rnd ex ey) ps d")
  ultimately show ?case
    using f Cons by simp
qed

lemma forEach_pointerup_dragging:
  "filter DraggablePoint.dragging (fst (forEach (pointerup_point ex ey) ps d)) = [] \<and>
   (snd (forEach (pointerup_point ex ey) ps d) \<longrightarrow> d)"
proof (induction ps arbitrary: d)
  case Nil
  show ?case by simp
next
  case (Cons p ps)
  obtain p' d' where f: "pointerup_point ex ey p d = (p', d')"
    by (cases "pointerup_point ex ey p d")
  obtain ps' d'' where r: "forEach (pointerup_point ex ey) ps d' = (ps', d'')"
    by (cases "forEach (pointerup_point ex ey) ps d'")
  from f have "\<not> DraggablePoint.dragging p'" "d' \<longrightarrow> d"
    by (auto simp: pointerup_point_def move_def default_state_def split: if_splits)
  with f r Cons [of d'] show ?case by simp
qed

lemma filter_dragging_map:
  "map DraggablePoint.dragging ps' = map DraggablePoint.dragging ps \<Longrightarrow>
     length (filter DraggablePoint.dragging ps') = length (filter DraggablePoint.dragging ps)"
proof (induction ps arbitrary: ps')
  case Nil
  then show ?case by simp
next
  case (Cons p ps)
  then obtain q qs where "ps' = q # qs" by (cases ps') auto
  with Cons show ?case by auto
qed

lemma forEach_pointerdown_miss:
  assumes "\<forall>p \<in> set ps. \<not> contains rnd p ex ey"
  shows "forEach (pointerdown_point rnd ex ey) ps d = (ps, d)"
  using assms
proof (induction ps)
  case Nil
  show ?case by simp
next
  case (Cons p ps)
  then have "pointerdown_point rnd ex ey p d = (p, d)"
    by (simp add: pointerdown_point_def)
  with Cons show ?case by simp
qed

lemma first_containing:
  assumes "\<exists>p \<in> set ps. contains rnd p ex ey"
  shows "\<exists>i < length ps. contains rnd (ps ! i) ex ey \<and> (\<forall>j < i. \<not> contains rnd (ps ! j) ex ey)"
proof -
  let ?P = "\<lambda>i. i < length ps \<and> contains rnd (ps ! i) ex ey"
  from assms have "\<exists>i. ?P i"
    by (auto simp: in_set_conv_nth)
  then have "?P (LEAST i. ?P i)"
    by (rule LeastI_ex)
  moreover have "\<not> contains rnd (ps ! j) ex ey" if "j < (LEAST i. ?P i)" for j
    using that not_less_Least [of j ?P] \<open>?P (LEAST i. ?P i)\<close> by auto
  ultimately show ?thesis by blast
qed

lemma pointerdown_dragging:
  "BezierCurve.dragging c \<Longrightarrow> pointerdown rnd ex ey c = c"
  by (simp add: pointerdown_def handle_def forEach_pointerdown_dragging)

lemma pointerdown_miss:
  "\<forall>p \<in> set (controlPoints c). \<not> contains rnd p ex ey \<Longrightarrow> pointerdown rnd ex ey c = c"
  by (simp add: pointerdown_def handle_def forEach_pointerdown_miss)

lemma pointerdown_first:
  assumes "\<not> BezierCurve.dragging c" and "i < length (controlPoints c)"
    and "contains rnd (controlPoints c ! i) ex ey"
    and "\<forall>j < i. \<not> contains rnd (controlPoints c ! j) ex ey"
  shows "pointerdown rnd ex ey c =
     c\<lparr>controlPoints := (controlPoints c)[i := drag (controlPoints c ! i)],
       BezierCurve.dragging := True\<rparr>"
  using assms by (simp add: pointerdown_def handle_def forEach_pointerdown_first)

lemma pointerdown_invariant:
  assumes "drag_invariant c"
  shows "drag_invariant (pointerdown rnd ex ey c)"
proof (cases "BezierCurve.dragging c \<or> (\<forall>p \<in> set (controlPoints c). \<not> contains rnd p ex ey)")
  case True
  with assms show ?thesis
    using pointerdown_dragging [of c rnd ex ey] pointerdown_miss [of c rnd ex ey] by auto
next
  case False
  then obtain i where i: "i < length (controlPoints c)" "contains rnd (controlPoints c ! i) ex ey"
    "\<forall>j < i. \<not> contains rnd (controlPoints c ! j) ex ey"
    using first_containing [of "controlPoints c" rnd ex ey] by auto
  from False assms have "filter DraggablePoint.dragging (controlPoints c) = []"
    by (simp add: drag_invariant_def dragging_points_def)
  with i(1) have "filter DraggablePoint.dragging ((controlPoints c)[i := drag (controlPoints c ! i)]) =
      [drag (controlPoints c ! i)]"
    by (intro filter_update_none) simp_all
  with False i show ?thesis
    by (simp add: pointerdown_first drag_invariant_def dragging_points_def)
qed

lemma handle_result:
  "handle f c =
     c\<lparr>controlPoints := fst (forEach f (controlPoints c) (BezierCurve.dragging c)),
       BezierCurve.dragging := snd (forEach f (controlPoints c) (BezierCurve.dragging c))\<rparr>"
  by (simp add: handle_def split: prod.splits)

lemma pointermove_invariant:
  assumes "drag_invariant c"
  shows "drag_invariant (pointermove rnd ex ey c)"
proof -
  let ?r = "forEach (pointermove_point rnd ex ey) (controlPoints c) (BezierCurve.dragging c)"
  have same: "map DraggablePoint.dragging (fst ?r) = map DraggablePoint.dragging (controlPoints c)"
    and flag: "snd ?r = BezierCurve.dragging c"
    using forEach_pointermove_dragging [of rnd ex ey "controlPoints c" "BezierCurve.dragging c"]
    by blast+
  have "length (filter DraggablePoint.dragging (fst ?r)) =
      length (filter DraggablePoint.dragging (controlPoints c))"
    using same by (rule filter_dragging_map)
  with assms flag show ?thesis
    unfolding pointermove_def handle_result drag_invariant_def dragging_points_def
    by (cases "BezierCurve.dragging c") simp_all
qed

lemma pointerup_invariant: "drag_invariant (pointerup ex ey c)"
proof -
  let ?r = "forEach (pointerup_point ex ey) (controlPoints c) (BezierCurve.dragging c)"
  have "filter DraggablePoint.dragging (fst ?r) = []"
    using forEach_pointerup_dragging [of ex ey "controlPoints c" "BezierCurve.dragging c"]
    by blast
  then show ?thesis
    unfolding pointerup_def handle_result drag_invariant_def dragging_points_def
    by simp
qed

lemma load_points_not_dragging: "filter DraggablePoint.dragging (load_points cs) = []"
  by (induction cs) (simp_all add: load_points_def DraggablePoint_new_def)

lemma fire_invariant:
  assumes "drag_invariant c" and "fire rnd ev c = Inr c'"
  shows "drag_invariant c'"
proof (cases ev)
  case Interpolate
  with assms show ?thesis
    using interpolate_unchanged [of rnd c c'] by (simp add: drag_invariant_def dragging_points_def)
next
  case Frame
  with assms(2) have "c' = c \<or> interpolate rnd c = Inr c'"
    by (auto simp: animate_def bindE_eq_Inr split: if_splits)
  with assms(1) show ?thesis
    using interpolate_unchanged [of rnd c c'] by (auto simp: drag_invariant_def dragging_points_def)
next
  case (Reload cs)
  with assms show ?thesis
    by (auto simp: loadControlPoints_def drag_invariant_def dragging_points_def
        load_points_not_dragging)
next
  case (PointerDown ex ey)
  with assms show ?thesis
    using pointerdown_invariant by auto
next
  case (PointerMove ex ey)
  with assms show ?thesis
    using pointermove_invariant by auto
next
  case (PointerUp ex ey)
  with assms show ?thesis
    using pointerup_invariant by auto
qed (use assms in \<open>auto simp: drag_invariant_def dragging_points_def pause_def run_def
      showButton_click_def pauseButton_click_def isPaused_def split: if_splits\<close>)

lemma reachable_invariant: "reachable rnd c \<Longrightarrow> drag_invariant c"
proof (induction rule: reachable.induct)
  case (constructed cs c)
  then show ?case
    using BezierCurve_new_D [of cs c]
    by (simp add: drag_invariant_def dragging_points_def load_points_not_dragging)
next
  case (fired c ev c')
  then show ?case
    using fire_invariant by blast
qed

text \<open>
  C6. In every reachable state at most one control point is dragging. A pointer-down while
  \<^verbatim>\<open>curve.dragging\<close> is set changes nothing. A pointer-down while it is not set, at
  coordinates that some control points contain, puts the first of them in iteration order
  into the dragging state, sets \<^verbatim>\<open>curve.dragging\<close> and changes no other control point, so
  that exactly that one control point is dragging afterwards, however many boxes contain
  the coordinates.
\<close>

theorem drag_exclusive:
  assumes "reachable rnd c"
  shows "length (dragging_points c) \<le> 1 \<and>
     (BezierCurve.dragging c \<longrightarrow> pointerdown rnd ex ey c = c) \<and>
     (\<not> BezierCurve.dragging c \<and> i < length (controlPoints c) \<and>
      contains rnd (controlPoints c ! i) ex ey \<and>
      (\<forall>j < i. \<not> contains rnd (controlPoints c ! j) ex ey) \<longrightarrow>
        pointerdown rnd ex ey c =
          c\<lparr>controlPoints := (controlPoints c)[i := drag (controlPoints c ! i)],
            BezierCurve.dragging := True\<rparr> \<and>
        dragging_points (pointerdown rnd ex ey c) = [drag (controlPoints c ! i)])"
proof -
  from assms have inv: "drag_invariant c"
    by (rule reachable_invariant)
  have "dragging_points (c\<lparr>controlPoints := (controlPoints c)[i := drag (controlPoints c ! i)],
      BezierCurve.dragging := True\<rparr>) = [drag (controlPoints c ! i)]"
    if "\<not> BezierCurve.dragging c" "i < length (controlPoints c)"
  proof -
    from that(1) inv have "filter DraggablePoint.dragging (controlPoints c) = []"
      by (simp add: drag_invariant_def dragging_points_def)
    with that(2) show ?thesis
      unfolding dragging_points_def by (simp add: filter_update_none)
  qed
  with inv show ?thesis
    by (auto simp: drag_invariant_def pointerdown_dragging pointerdown_first)
qed

theorem drag_exclusive_witness:
  "reachable round64 (projr (BezierCurve_new overlapping_coords)) \<and>
   \<not> BezierCurve.dragging (projr (BezierCurve_new overlapping_coords)) \<and>
   0 < length (controlPoints (projr (BezierCurve_new overlapping_coords))) \<and>
   contains round64 (controlPoints (projr (BezierCurve_new overlapping_coords)) ! 0) 104 100 \<and>
   contains round64 (controlPoints (projr (BezierCurve_new overlapping_coords)) ! 1) 104 100 \<and>
   dragging_points (pointerdown round64 104 100 (projr (BezierCurve_new overlapping_coords))) =
     [drag (controlPoints (projr (BezierCurve_new overlapping_coords)) ! 0)] \<and>
   BezierCurve.dragging (pointerdown round64 104 100 (projr (BezierCurve_new overlapping_coords))) \<and>
   pointerdown round64 104 100
       (pointerdown round64 104 100 (projr (BezierCurve_new overlapping_coords))) =
     pointerdown round64 104 100 (projr (BezierCurve_new overlapping_coords))"
proof -
  let ?c = "projr (BezierCurve_new overlapping_coords)"
  have n: "BezierCurve_new overlapping_coords = Inr ?c"
    by (simp add: overlapping_coords_def BezierCurve_new_closed)
  have r: "reachable round64 ?c"
    by (rule reachable.constructed [OF n])
  have h: "\<not> BezierCurve.dragging ?c" "0 < length (controlPoints ?c)"
    "contains round64 (controlPoints ?c ! 0) 104 100"
    "contains round64 (controlPoints ?c ! 1) 104 100"
    by (simp_all add: overlapping_coords_def BezierCurve_new_closed load_points_def
        DraggablePoint_new_def contains_def js_add_def js_sub_def round64_eval)
  have e: "\<forall>j < (0 :: nat). \<not> contains round64 (controlPoints ?c ! j) 104 100"
    by simp
  from h e have d: "pointerdown round64 104 100 ?c =
      ?c\<lparr>controlPoints := (controlPoints ?c)[0 := drag (controlPoints ?c ! 0)],
        BezierCurve.dragging := True\<rparr>"
    "dragging_points (pointerdown round64 104 100 ?c) = [drag (controlPoints ?c ! 0)]"
    using drag_exclusive [OF r, of 104 100 0] by blast+
  then have f: "BezierCurve.dragging (pointerdown round64 104 100 ?c)"
    by simp
  have "reachable round64 (pointerdown round64 104 100 ?c)"
    by (rule reachable.fired [OF r, of "PointerDown 104 100"]) simp
  from drag_exclusive [OF this, of 104 100] f
  have "pointerdown round64 104 100 (pointerdown round64 104 100 ?c) =
      pointerdown round64 104 100 ?c"
    by simp
  with r h d(2) f show ?thesis by simp
qed

section \<open>Input of the wrong length\<close>

lemma draw_interpolation_total:
  "5 \<le> length (interpolationPoints c) \<Longrightarrow> \<exists>ops. draw_interpolation rnd c = Inr ops"
  by (auto simp: draw_interpolation_def elem_def)

lemma draw_total:
  assumes "4 \<le> length (controlPoints c)"
    and "interpolating c \<longrightarrow> 5 \<le> length (interpolationPoints c)"
  shows "\<exists>ops. draw rnd c = Inr ops"
proof (cases "interpolating c")
  case True
  with assms(2) obtain ov where "draw_interpolation rnd c = Inr ov"
    using draw_interpolation_total by blast
  with True assms(1) show ?thesis
    by (auto simp: draw_def elem_def)
next
  case False
  with assms(1) show ?thesis
    by (auto simp: draw_def elem_def)
qed

lemma draw_D:
  assumes "draw rnd c = Inr ops"
  shows "4 \<le> length (controlPoints c)"
proof -
  from assms obtain p where "elem (controlPoints c) 3 = Inr p"
    unfolding draw_def bindE_eq_Inr by blast
  then show ?thesis
    using elem_D by fastforce
qed

text \<open>
  C8, as amended. The length of the input is not checked anywhere. The constructor raises
  a TypeError if and only if it is given fewer than 3 coordinates and builds a curve from
  any other list; \<^verbatim>\<open>loadControlPoints\<close> accepts every list. On a curve built by the
  constructor, \<^verbatim>\<open>interpolate()\<close> and \<^verbatim>\<open>draw()\<close> raise a TypeError if and only if there
  are fewer than 4 control points.
\<close>

theorem construction_unvalidated:
  "(BezierCurve_new cs = Inl TypeError \<longleftrightarrow> length cs < 3) \<and>
   (isl (BezierCurve_new cs) \<longleftrightarrow> length cs < 3) \<and>
   fire rnd (Reload cs) c = Inr (loadControlPoints cs c) \<and>
   length (controlPoints (loadControlPoints cs c)) = length cs \<and>
   (BezierCurve_new cs = Inr c' \<longrightarrow>
      (interpolate rnd c' = Inl TypeError \<longleftrightarrow> length cs < 4) \<and>
      (draw rnd c' = Inl TypeError \<longleftrightarrow> length cs < 4))"
proof -
  have new: "BezierCurve_new cs = Inl TypeError \<longleftrightarrow> length cs < 3"
  proof
    assume "BezierCurve_new cs = Inl TypeError"
    show "length cs < 3"
    proof (rule ccontr)
      assume "\<not> length cs < 3"
      then obtain a b c r where "cs = a # b # c # r"
        using at_least_three [of cs] by auto
      with \<open>BezierCurve_new cs = Inl TypeError\<close> show False
        by (simp add: BezierCurve_new_closed)
    qed
  qed (rule BezierCurve_new_short)
  have built: "(interpolate rnd c' = Inl TypeError \<longleftrightarrow> length cs < 4) \<and>
      (draw rnd c' = Inl TypeError \<longleftrightarrow> length cs < 4)" if "BezierCurve_new cs = Inr c'"
  proof -
    from that have c': "controlPoints c' = load_points cs"
      "length (interpolationPoints c') = 6" "\<not> interpolating c'"
      using BezierCurve_new_D by blast+
    then have len: "length (controlPoints c') = length cs"
      by (simp add: load_points_def)
    have "(\<exists>v. interpolate rnd c' = Inr v) \<longleftrightarrow> 4 \<le> length cs"
      using c'(2) len by (simp add: interpolate_succeeds_iff)
    moreover have "(\<exists>v. draw rnd c' = Inr v) \<longleftrightarrow> 4 \<le> length cs"
      using draw_total [of c' rnd] draw_D [of rnd c'] c'(3) len by auto
    ultimately show ?thesis
      using only_TypeError [of "interpolate rnd c'"] only_TypeError [of "draw rnd c'"]
      by (metis not_le)
  qed
  from new built show ?thesis
    by (simp add: isl_iff_TypeError loadControlPoints_def load_points_def)
qed

theorem construction_unvalidated_witness:
  "BezierCurve_new example_coords = Inr example_curve \<and>
   \<not> length example_coords < 4 \<and>
   interpolate round64 example_curve \<noteq> Inl TypeError \<and>
   draw round64 example_curve \<noteq> Inl TypeError \<and>
   BezierCurve_new (take 2 example_coords) = Inl TypeError"
  using construction_unvalidated [of example_coords round64 example_curve example_curve]
    construction_unvalidated [of "take 2 example_coords" round64 example_curve example_curve]
  by (simp add: example_constructed) (simp add: example_coords_def)

text \<open>
  The claim C8 as it stands fails: the constructor builds a curve from 5 coordinates and
  from 3, and \<^verbatim>\<open>interpolate()\<close> runs on the curve built from 5.
\<close>

theorem wrong_length_accepted_counterexample:
  "\<not> isl (BezierCurve_new (example_coords @ [((50, 50), [])])) \<and>
   \<not> isl (program round64 (example_coords @ [((50, 50), [])]) [Interpolate]) \<and>
   \<not> isl (BezierCurve_new (take 3 example_coords)) \<and>
   \<not> isl (program round64 example_coords [Reload (take 2 example_coords)])"
  by (simp add: example_coords_def program_eval loadControlPoints_def)

section \<open>The animation frame\<close>

lemma animate_D:
  assumes "animate rnd c = Inr (ops, c')"
  shows "(\<exists>drawn. draw rnd c = Inr drawn \<and> ops = ClearRect # drawn @ [RequestAnimationFrame]) \<and>
     (if interpolating c then interpolate rnd c = Inr c' else c' = c)"
  using assms by (auto simp: animate_def bindE_eq_Inr split: if_splits)

lemma animate_total:
  assumes "4 \<le> length (controlPoints c)" and "6 \<le> length (interpolationPoints c)"
  shows "\<exists>drawn c''. animate rnd c = Inr (ClearRect # drawn @ [RequestAnimationFrame], c'')"
proof -
  from assms obtain drawn where "draw rnd c = Inr drawn"
    using draw_total [of c rnd] by auto
  moreover from assms obtain c1 where "interpolate rnd c = Inr c1"
    using interpolate_succeeds_iff [of rnd c] by auto
  ultimately show ?thesis
    by (simp add: animate_def)
qed

text \<open>
  C9, as amended. Every animation frame that completes has performed, in order: clear the
  surface, draw the curve as it is when the frame starts, then, only if the interpolation
  is shown (\<^verbatim>\<open>curve.interpolating\<close>), recompute the six markers (advancing \<open>t\<close> if not
  paused), then request the next frame. The markers drawn by a frame are those that the
  frame before it computed, and a frame with the interpolation hidden changes nothing.
  A frame completes whenever the curve has at least 4 control points and 6 markers.
\<close>

theorem animate_order:
  "(animate rnd c = Inr (ops, c') \<longrightarrow>
      (\<exists>drawn. draw rnd c = Inr drawn \<and> ops = ClearRect # drawn @ [RequestAnimationFrame]) \<and>
      (if interpolating c then interpolate rnd c = Inr c' else c' = c)) \<and>
   (4 \<le> length (controlPoints c) \<and> 6 \<le> length (interpolationPoints c) \<longrightarrow>
      (\<exists>drawn c''. animate rnd c = Inr (ClearRect # drawn @ [RequestAnimationFrame], c'')))"
  using animate_D [of rnd c ops c'] animate_total [of c rnd] by blast

theorem animate_order_witness:
  "4 \<le> length (controlPoints (showButton_click example_curve)) \<and>
   6 \<le> length (interpolationPoints (showButton_click example_curve)) \<and>
   interpolating (showButton_click example_curve) \<and>
   (\<exists>drawn c'. animate round64 (showButton_click example_curve) =
        Inr (ClearRect # drawn @ [RequestAnimationFrame], c') \<and>
      draw round64 (showButton_click example_curve) = Inr drawn \<and>
      interpolate round64 (showButton_click example_curve) = Inr c' \<and>
      t c' = 5764607523034235 / 2 ^ 60)"
proof -
  let ?c = "showButton_click example_curve"
  have h: "4 \<le> length (controlPoints ?c)" "6 \<le> length (interpolationPoints ?c)"
    and i: "interpolating ?c" and p: "\<not> paused ?c" and z: "t ?c = 0"
    by (simp_all add: showButton_click_def example_curve_def load_points_def example_coords_def)
  from h obtain drawn c' where a: "animate round64 ?c =
      Inr (ClearRect # drawn @ [RequestAnimationFrame], c')"
    using animate_order [of round64 ?c] by blast
  with i have d: "draw round64 ?c = Inr drawn" and c': "interpolate round64 ?c = Inr c'"
    using animate_order [of round64 ?c "ClearRect # drawn @ [RequestAnimationFrame]" c']
    by auto
  from c' p z have "t c' = 5764607523034235 / 2 ^ 60"
    using interpolate_t [of round64 ?c c'] by (simp add: first_step_binary64)
  with h i a d c' show ?thesis by blast
qed

lemmas frame_eval =
  animate_def draw_def draw_interpolation_def Point_draw_def elem_def showButton_click_def

text \<open>
  The claim C9 as it stands fails. On the curve as constructed, which is not paused, a
  frame leaves \<open>t\<close> at 0, where a call of \<^verbatim>\<open>interpolate()\<close> advances it. And once the
  interpolation is shown, the second frame draws the markers where the first frame put
  them, with Q0 at \<open>(0, 0)\<close>, and leaves Q0 at \<open>(0, 0.5)\<close>.
\<close>

theorem frame_counterexample:
  "map_sum id t (program round64 example_coords [Frame]) = Inr 0 \<and>
   map_sum id paused (program round64 example_coords [Frame]) = Inr False \<and>
   map_sum id t (program round64 example_coords [Interpolate]) =
     Inr (5764607523034235 / 2 ^ 60) \<and>
   map_sum id (frame_draws_recomputed round64)
     (program round64 example_coords [ShowClick, Frame]) = Inr False"
proof -
  let ?r = "program round64 example_coords [ShowClick, Frame]"
  have first: "map_sum id t (program round64 example_coords [Frame]) = Inr 0"
    "map_sum id paused (program round64 example_coords [Frame]) = Inr False"
    "map_sum id t (program round64 example_coords [Interpolate]) =
      Inr (5764607523034235 / 2 ^ 60)"
    by (simp_all add: example_coords_def program_eval frame_eval round64_eval)
  have "?r = Inr (projr ?r)"
    by (simp add: example_coords_def program_eval frame_eval round64_eval)
  then obtain c1 where r: "?r = Inr c1"
    by (rule that)
  then have c1: "c1 = projr ?r"
    by simp
  have i: "interpolating c1"
    unfolding c1 by (simp add: example_coords_def program_eval frame_eval round64_eval)
  have differ: "draw round64 c1 \<noteq> draw round64 (projr (interpolate round64 c1))"
    unfolding c1 by (simp add: example_coords_def program_eval frame_eval round64_eval)
  have "\<not> frame_draws_recomputed round64 c1"
  proof
    assume "frame_draws_recomputed round64 c1"
    then obtain drawn c' where a: "animate round64 c1 =
        Inr (ClearRect # drawn @ [RequestAnimationFrame], c')" and d: "draw round64 c' = Inr drawn"
      unfolding frame_draws_recomputed_def by blast
    from animate_D [OF a] i have "draw round64 c1 = Inr drawn" "interpolate round64 c1 = Inr c'"
      by simp_all
    with d differ show False by simp
  qed
  with first show ?thesis
    unfolding r by simp
qed

end
